theory Spec2Isabelle
  imports Main
begin

section \<open>Exceptions and Python primitives\<close>

text \<open>
  The exceptions that \<^verbatim>\<open>index_documents.py\<close> can raise.  The three raised by the module
  itself carry the value interpolated into their message:
  \<^item> \<open>FileNotFoundError p\<close> is \<^verbatim>\<open>FileNotFoundError(f"File not found: {p}")\<close>;
  \<^item> \<open>UnsupportedFormat e\<close> is \<^verbatim>\<open>ValueError(f"Unsupported file format: {e}")\<close>;
  \<^item> \<open>UnsupportedStrategy s\<close> is \<^verbatim>\<open>ValueError(f"Unsupported chunking strategy: '{s}'")\<close>;
  \<^item> \<open>RangeStepZero\<close> is the \<^verbatim>\<open>ValueError\<close> of \<^verbatim>\<open>range\<close> called with step 0;
  \<^item> \<open>Raised is_exc m\<close> is an exception coming out of an external collaborator (PDF/DOCX
    reader, embedding service, database driver); \<open>is_exc\<close> tells whether it is an instance
    of \<^verbatim>\<open>Exception\<close> (and so caught by \<^verbatim>\<open>except Exception\<close>) or only of
    \<^verbatim>\<open>BaseException\<close> (such as \<^verbatim>\<open>KeyboardInterrupt\<close>).
\<close>

datatype exn =
    FileNotFoundError string
  | UnsupportedFormat string
  | UnsupportedStrategy string
  | RangeStepZero
  | Raised bool string

fun is_Exception :: "exn \<Rightarrow> bool" where
  "is_Exception (Raised is_exc m) = is_exc"
| "is_Exception e = True"

text \<open>
  A Python string is modelled as a \<open>string\<close>, one \<open>char\<close> per code point (code points
  below 256).  \<^verbatim>\<open>str.isspace\<close>, which decides what \<^verbatim>\<open>str.strip()\<close> removes and what
  \<^verbatim>\<open>\s\<close> matches, holds on that range for TAB, LF, VT, FF, CR, FS, GS, RS, US, space,
  NEL and NBSP.
\<close>

definition isspace :: "char \<Rightarrow> bool" where
  "isspace c = ((of_char c :: nat) \<in> {9, 10, 11, 12, 13, 28, 29, 30, 31, 32, 133, 160})"

definition strip :: "string \<Rightarrow> string" where
  "strip s = rev (dropWhile isspace (rev (dropWhile isspace s)))"

text \<open>\<^verbatim>\<open>range(start, stop, step)\<close>, as the list of its elements.\<close>

definition py_range :: "int \<Rightarrow> int \<Rightarrow> int \<Rightarrow> exn + int list" where
  "py_range start stop step =
     (if step = 0 then Inl RangeStepZero
      else if 0 < step
        then Inr (map (\<lambda>k. start + int k * step) [0..<nat ((stop - start + step - 1) div step)])
        else Inr (map (\<lambda>k. start + int k * step) [0..<nat ((start - stop - step - 1) div (- step))]))"

text \<open>
  The slice \<^verbatim>\<open>xs[i:j]\<close>: a negative index counts from the end, and both indices are
  clamped to the length.
\<close>

definition clamp_index :: "int \<Rightarrow> nat \<Rightarrow> nat" where
  "clamp_index i n = (if i < 0 then nat (max 0 (i + int n)) else min (nat i) n)"

definition py_slice :: "'a list \<Rightarrow> int \<Rightarrow> int \<Rightarrow> 'a list" where
  "py_slice xs i j =
     (let lo = clamp_index i (length xs); hi = clamp_index j (length xs)
      in take (hi - lo) (drop lo xs))"

text \<open>
  \<^verbatim>\<open>re.sub(p+, r, text)\<close> for a character class \<open>p\<close>: every maximal run of characters of
  the class is replaced by the single character \<open>r\<close>.
\<close>

function sub_runs :: "(char \<Rightarrow> bool) \<Rightarrow> char \<Rightarrow> string \<Rightarrow> string" where
  "sub_runs p r [] = []"
| "sub_runs p r (c # cs) =
     (if p c then r # sub_runs p r (dropWhile p cs) else c # sub_runs p r cs)"
  by pat_completeness auto
termination
  by (relation "measure (\<lambda>(p, r, s). length s)") (auto simp: less_Suc_eq_le length_dropWhile_le)

section \<open>Text normalizer and length enforcer\<close>

definition MAX_CHARS :: int where
  "MAX_CHARS = 6000"

definition is_blank :: "char \<Rightarrow> bool" where
  "is_blank c = (c = CHR '' '' \<or> c = CHR 0x09)"

definition is_newline :: "char \<Rightarrow> bool" where
  "is_newline c = (c = CHR 0x0A)"

definition clean_chunk :: "string \<Rightarrow> string" where
  "clean_chunk text =
     (let text1 = sub_runs is_blank (CHR '' '') text;
          text2 = sub_runs is_newline (CHR 0x0A) text1
      in strip text2)"

definition enforce_max_length :: "string \<Rightarrow> int \<Rightarrow> exn + string list" where
  "enforce_max_length text max_chars =
     (case py_range 0 (int (length text)) max_chars of
        Inl e \<Rightarrow> Inl e
      | Inr is \<Rightarrow> Inr (map (\<lambda>i. py_slice text i (i + max_chars)) is))"

section \<open>Chunk strategies\<close>

text \<open>
  The \<^verbatim>\<open>while\<close> loop of \<^verbatim>\<open>split_text_fixed\<close>, with its variables \<open>start\<close> and
  \<open>chunks\<close>.  The loop need not end (the cursor does not advance when
  \<open>chunk_size \<le> overlap\<close>), so the result is an option: \<open>None\<close> is a run that never
  returns.
\<close>

partial_function (option) split_text_fixed_loop ::
  "string \<Rightarrow> int \<Rightarrow> int \<Rightarrow> int \<Rightarrow> string list \<Rightarrow> string list option" where
  "split_text_fixed_loop text chunk_size overlap start chunks =
     (if start < int (length text)
      then let end = start + chunk_size;
               chunk = py_slice text start end
           in split_text_fixed_loop text chunk_size overlap (start + (chunk_size - overlap))
                (if strip chunk \<noteq> [] then chunks @ [chunk] else chunks)
      else Some chunks)"

definition split_text_fixed :: "string \<Rightarrow> int \<Rightarrow> int \<Rightarrow> string list option" where
  "split_text_fixed text chunk_size overlap = split_text_fixed_loop text chunk_size overlap 0 []"

text \<open>
  \<^verbatim>\<open>re.split(r'(?<=[.!?])\s+', text)\<close>: scanning from the left, a maximal run of
  whitespace that directly follows one of \<^verbatim>\<open>.\<close>, \<^verbatim>\<open>!\<close>, \<^verbatim>\<open>?\<close> ends the current
  piece and is dropped.  \<open>after_end\<close> tells whether the character before the scanning
  position is one of the three, \<open>cur\<close> is the piece read so far.
\<close>

definition is_sentence_end :: "char \<Rightarrow> bool" where
  "is_sentence_end c = (c = CHR ''.'' \<or> c = CHR ''!'' \<or> c = CHR ''?'')"

function re_split_sentence :: "bool \<Rightarrow> string \<Rightarrow> string \<Rightarrow> string list" where
  "re_split_sentence after_end cur [] = [cur]"
| "re_split_sentence after_end cur (c # cs) =
     (if after_end \<and> isspace c
      then cur # re_split_sentence False [] (dropWhile isspace cs)
      else re_split_sentence (is_sentence_end c) (cur @ [c]) cs)"
  by pat_completeness auto
termination
  by (relation "measure (\<lambda>(a, cur, s). length s)") (auto simp: less_Suc_eq_le length_dropWhile_le)

definition split_text_sentence :: "string \<Rightarrow> string list" where
  "split_text_sentence text =
     (let sentences = re_split_sentence False [] text
      in filter (\<lambda>s. strip s \<noteq> []) sentences)"

text \<open>\<^verbatim>\<open>text.split(sep)\<close> for a one-character separator; \<open>cur\<close> is the piece read so far.\<close>

fun str_split :: "char \<Rightarrow> string \<Rightarrow> string \<Rightarrow> string list" where
  "str_split sep cur [] = [cur]"
| "str_split sep cur (c # cs) =
     (if c = sep then cur # str_split sep [] cs else str_split sep (cur @ [c]) cs)"

definition split_text_paragraph :: "string \<Rightarrow> string list" where
  "split_text_paragraph text =
     (let paragraphs = str_split (CHR 0x0A) [] text
      in filter (\<lambda>p. strip p \<noteq> []) paragraphs)"

definition chunk_text :: "string \<Rightarrow> string \<Rightarrow> (exn + string list) option" where
  "chunk_text text strategy =
     (if strategy = ''fixed'' then map_option Inr (split_text_fixed text 500 50)
      else if strategy = ''sentence'' then Some (Inr (split_text_sentence text))
      else if strategy = ''paragraph'' then Some (Inr (split_text_paragraph text))
      else Some (Inl (UnsupportedStrategy strategy)))"

section \<open>Paths\<close>

text \<open>
  \<^verbatim>\<open>Path(p).name\<close> and \<^verbatim>\<open>Path(p).suffix\<close> of \<^verbatim>\<open>pathlib\<close> on POSIX paths: the name is
  the last component, empty and \<^verbatim>\<open>.\<close> components being dropped; the suffix starts at the
  last dot of the name, unless that dot is the first or the last character of the name.
\<close>

definition path_name :: "string \<Rightarrow> string" where
  "path_name p =
     (case filter (\<lambda>c. c \<noteq> [] \<and> c \<noteq> ''.'') (str_split (CHR ''/'') [] p) of
        [] \<Rightarrow> []
      | c # cs \<Rightarrow> last (c # cs))"

definition path_suffix :: "string \<Rightarrow> string" where
  "path_suffix p =
     (let name = path_name p;
          k = length (takeWhile (\<lambda>c. c \<noteq> CHR ''.'') (rev name))
      in if CHR ''.'' \<in> set name \<and> 0 < length name - 1 - k \<and> 0 < k
         then drop (length name - 1 - k) name else [])"

text \<open>\<^verbatim>\<open>str.lower()\<close> on code points below 256.\<close>

definition lower_char :: "char \<Rightarrow> char" where
  "lower_char c =
     (let n = (of_char c :: nat)
      in if (65 \<le> n \<and> n \<le> 90) \<or> (192 \<le> n \<and> n \<le> 222 \<and> n \<noteq> 215)
         then char_of (n + 32) else c)"

definition lower :: "string \<Rightarrow> string" where
  "lower s = map lower_char s"

section \<open>External collaborators and the state of a run\<close>

text \<open>
  A row of the table \<^verbatim>\<open>document_embeddings\<close>, as \<^verbatim>\<open>insert_to_db\<close> writes it.  The
  embedding vector is opaque to the pipeline: its type is the parameter \<open>'v\<close>.
\<close>

record 'v row =
  row_chunk_text :: string
  row_embedding :: 'v
  row_filename :: string
  row_strategy_split :: string

text \<open>
  The lines printed, by their format string:
  \<^verbatim>\<open>Processing: {filename}\<close>, \<^verbatim>\<open>Created {n} chunks using {strategy} strategy\<close>,
  \<^verbatim>\<open>Processed chunk {n}\<close> and \<^verbatim>\<open>Successfully stored {n} embeddings in database\<close> (after
  a check mark, U+2705).
\<close>

text \<open>
  What the outside world answers.  A call that raises answers with its exception.
  \<^item> \<open>os_path_exists\<close>: \<^verbatim>\<open>os.path.exists\<close>;
  \<^item> \<open>PdfReader_pages\<close>: \<^verbatim>\<open>PdfReader(file_path).pages\<close>, each page with the result of its
    \<^verbatim>\<open>extract_text()\<close>;
  \<^item> \<open>Document_paragraphs\<close>: the \<^verbatim>\<open>text\<close> of the paragraphs of \<^verbatim>\<open>Document(file_path)\<close>;
  \<^item> \<open>psycopg2_connect\<close>: the exception of \<^verbatim>\<open>psycopg2.connect\<close>, if it raises;
  \<^item> \<open>embed_content n text\<close>: the answer of the embedding service to the call number \<open>n\<close>
    of the run (counted from 0), made with \<open>text\<close>;
  \<^item> \<open>cursor_execute n r\<close>: the exception of the insert number \<open>n\<close> of the run, of row \<open>r\<close>,
    if it raises;
  \<^item> \<open>conn_commit_result\<close>: the exception of \<^verbatim>\<open>conn.commit()\<close>, if it raises;
  \<^item> \<open>print_result m\<close>: the exception of the \<^verbatim>\<open>print\<close> of the line \<open>m\<close>, if it raises (the
    standard output may be closed, or unable to encode a character of the line, such as
    the check mark that starts the last line).

  \<^verbatim>\<open>conn.rollback()\<close>, \<^verbatim>\<open>conn.close()\<close> and \<^verbatim>\<open>cursor.close()\<close> are taken not to raise.
\<close>

datatype msg =
    Processing string
  | Created nat string
  | ProcessedChunk nat
  | Stored nat

record 'v env =
  os_path_exists :: "string \<Rightarrow> bool"
  PdfReader_pages :: "string \<Rightarrow> exn + (exn + string) list"
  Document_paragraphs :: "string \<Rightarrow> exn + string list"
  psycopg2_connect :: "exn option"
  embed_content :: "nat \<Rightarrow> string \<Rightarrow> exn + 'v"
  cursor_execute :: "nat \<Rightarrow> 'v row \<Rightarrow> exn option"
  conn_commit_result :: "exn option"
  print_result :: "msg \<Rightarrow> exn option"

datatype txn_state = NotConnected | Open | Committed | RolledBack

datatype 'v event =
    PathExists string
  | ReadPdf string
  | ReadDocx string
  | Connect
  | Embed string
  | Insert "'v row"
  | Commit
  | Rollback
  | Close

text \<open>
  The state a run acts on:
  \<^item> \<open>table\<close>: the committed rows of \<^verbatim>\<open>document_embeddings\<close>, those any reader sees;
  \<^item> \<open>pending\<close>: the rows inserted in the transaction of the connection and not committed;
  \<^item> \<open>txn\<close> and \<open>closed\<close>: the state of the connection \<^verbatim>\<open>conn\<close>;
  \<^item> \<open>trace\<close>: the calls made to the outside world, oldest first;
  \<^item> \<open>stdout\<close>: the lines printed, oldest first.
\<close>

record 'v world =
  table :: "'v row list"
  pending :: "'v row list"
  txn :: txn_state
  closed :: bool
  trace :: "'v event list"
  stdout :: "msg list"

definition called :: "'v event \<Rightarrow> 'v world \<Rightarrow> 'v world" where
  "called ev w = w\<lparr>trace := trace w @ [ev]\<rparr>"

text \<open>\<^verbatim>\<open>print\<close>: the line reaches the standard output, or the call raises.\<close>

definition print :: "'v env \<Rightarrow> msg \<Rightarrow> 'v world \<Rightarrow> (exn + unit) \<times> 'v world" where
  "print env m w =
     (case print_result env m of
        Some e \<Rightarrow> (Inl e, w)
      | None \<Rightarrow> (Inr (), w\<lparr>stdout := stdout w @ [m]\<rparr>))"

text \<open>The value a Python call returns: \<^verbatim>\<open>None\<close> or an integer.\<close>

datatype py_value = PyNone | PyInt int

section \<open>Extraction\<close>

fun pdf_pages_text :: "(exn + string) list \<Rightarrow> string \<Rightarrow> exn + string" where
  "pdf_pages_text [] text = Inr text"
| "pdf_pages_text (page # pages) text =
     (case page of
        Inl e \<Rightarrow> Inl e
      | Inr page_text \<Rightarrow>
          pdf_pages_text pages (if page_text \<noteq> [] then text @ page_text @ [CHR 0x0A] else text))"

definition extract_text_from_pdf :: "'v env \<Rightarrow> string \<Rightarrow> 'v world \<Rightarrow> (exn + string) \<times> 'v world" where
  "extract_text_from_pdf env file_path w =
     (case PdfReader_pages env file_path of
        Inl e \<Rightarrow> (Inl e, called (ReadPdf file_path) w)
      | Inr pages \<Rightarrow> (pdf_pages_text pages [], called (ReadPdf file_path) w))"

definition extract_text_from_docx :: "'v env \<Rightarrow> string \<Rightarrow> 'v world \<Rightarrow> (exn + string) \<times> 'v world" where
  "extract_text_from_docx env file_path w =
     (case Document_paragraphs env file_path of
        Inl e \<Rightarrow> (Inl e, called (ReadDocx file_path) w)
      | Inr paragraphs \<Rightarrow>
          (Inr (foldl (\<lambda>text paragraph. text @ paragraph @ [CHR 0x0A]) [] paragraphs),
           called (ReadDocx file_path) w))"

definition file_ext :: "string \<Rightarrow> string" where
  "file_ext file_path = lower (path_suffix file_path)"

definition extract_text :: "'v env \<Rightarrow> string \<Rightarrow> 'v world \<Rightarrow> (exn + string) \<times> 'v world" where
  "extract_text env file_path w =
     (if file_ext file_path = ''.pdf'' then extract_text_from_pdf env file_path w
      else if file_ext file_path = ''.docx'' then extract_text_from_docx env file_path w
      else (Inl (UnsupportedFormat (file_ext file_path)), w))"

section \<open>Embedding and storage\<close>

definition generate_embedding :: "'v env \<Rightarrow> nat \<Rightarrow> string \<Rightarrow> 'v world \<Rightarrow> (exn + 'v) \<times> 'v world" where
  "generate_embedding env n text w = (embed_content env n text, called (Embed text) w)"

definition get_db_connection :: "'v env \<Rightarrow> 'v world \<Rightarrow> (exn + unit) \<times> 'v world" where
  "get_db_connection env w =
     (case psycopg2_connect env of
        Some e \<Rightarrow> (Inl e, called Connect w)
      | None \<Rightarrow> (Inr (), (called Connect w)\<lparr>pending := [], txn := Open, closed := False\<rparr>))"

definition insert_to_db ::
  "'v env \<Rightarrow> nat \<Rightarrow> string \<Rightarrow> 'v \<Rightarrow> string \<Rightarrow> string \<Rightarrow> 'v world \<Rightarrow> (exn + unit) \<times> 'v world" where
  "insert_to_db env n chunk embedding filename strategy w =
     (let r = \<lparr>row_chunk_text = chunk, row_embedding = embedding,
                row_filename = filename, row_strategy_split = strategy\<rparr>
      in (case cursor_execute env n r of
            Some e \<Rightarrow> (Inl e, called (Insert r) w)
          | None \<Rightarrow> (Inr (), (called (Insert r) w)\<lparr>pending := pending w @ [r]\<rparr>)))"

text \<open>
  \<^verbatim>\<open>conn.commit()\<close> makes the pending rows visible; \<^verbatim>\<open>conn.rollback()\<close> discards them,
  and undoes nothing when no transaction is open (after a commit);
  \<^verbatim>\<open>conn.close()\<close> closes the connection, and the changes of a transaction that is still
  open are discarded as if it had been rolled back.
\<close>

definition conn_commit :: "'v env \<Rightarrow> 'v world \<Rightarrow> (exn + unit) \<times> 'v world" where
  "conn_commit env w =
     (case conn_commit_result env of
        Some e \<Rightarrow> (Inl e, called Commit w)
      | None \<Rightarrow>
          (Inr (), (called Commit w)\<lparr>table := table w @ pending w, pending := [], txn := Committed\<rparr>))"

definition conn_rollback :: "'v world \<Rightarrow> 'v world" where
  "conn_rollback w =
     (if txn w = Open
      then (called Rollback w)\<lparr>pending := [], txn := RolledBack\<rparr>
      else called Rollback w)"

definition conn_close :: "'v world \<Rightarrow> 'v world" where
  "conn_close w =
     (if txn w = Open
      then (called Close w)\<lparr>pending := [], txn := RolledBack, closed := True\<rparr>
      else (called Close w)\<lparr>closed := True\<rparr>)"

section \<open>The ingestion pipeline\<close>

text \<open>The inner loop of \<^verbatim>\<open>process_document\<close>, over the sub-chunks of one chunk.\<close>

fun process_safe_chunks ::
  "'v env \<Rightarrow> string \<Rightarrow> string \<Rightarrow> string list \<Rightarrow> nat \<Rightarrow> 'v world \<Rightarrow> (exn + nat) \<times> 'v world" where
  "process_safe_chunks env filename strategy [] chunk_counter w = (Inr chunk_counter, w)"
| "process_safe_chunks env filename strategy (safe_chunk # rest) chunk_counter w =
     (case generate_embedding env chunk_counter safe_chunk w of
        (Inl e, w1) \<Rightarrow> (Inl e, w1)
      | (Inr embedding, w1) \<Rightarrow>
          (case insert_to_db env chunk_counter safe_chunk embedding filename strategy w1 of
             (Inl e, w2) \<Rightarrow> (Inl e, w2)
           | (Inr u, w2) \<Rightarrow>
               (case print env (ProcessedChunk (chunk_counter + 1)) w2 of
                  (Inl e, w3) \<Rightarrow> (Inl e, w3)
                | (Inr u', w3) \<Rightarrow>
                    process_safe_chunks env filename strategy rest (chunk_counter + 1) w3)))"

text \<open>The outer loop, over the chunks.\<close>

fun process_chunks ::
  "'v env \<Rightarrow> string \<Rightarrow> string \<Rightarrow> string list \<Rightarrow> nat \<Rightarrow> 'v world \<Rightarrow> (exn + nat) \<times> 'v world" where
  "process_chunks env filename strategy [] chunk_counter w = (Inr chunk_counter, w)"
| "process_chunks env filename strategy (chunk # chunks) chunk_counter w =
     (case enforce_max_length chunk MAX_CHARS of
        Inl e \<Rightarrow> (Inl e, w)
      | Inr safe_chunks \<Rightarrow>
          (case process_safe_chunks env filename strategy safe_chunks chunk_counter w of
             (Inl e, w1) \<Rightarrow> (Inl e, w1)
           | (Inr chunk_counter1, w1) \<Rightarrow>
               process_chunks env filename strategy chunks chunk_counter1 w1))"

text \<open>
  The body of the \<^verbatim>\<open>try\<close>: the two loops, the commit and the last line printed, which
  is printed inside the \<^verbatim>\<open>try\<close>, after the commit.  The function has no \<^verbatim>\<open>return\<close>
  statement, so the value of a run that ends normally is \<^verbatim>\<open>None\<close>.
\<close>

definition try_body ::
  "'v env \<Rightarrow> string \<Rightarrow> string \<Rightarrow> string list \<Rightarrow> 'v world \<Rightarrow> (exn + py_value) \<times> 'v world" where
  "try_body env filename strategy chunks w =
     (case process_chunks env filename strategy chunks 0 w of
        (Inl e, w1) \<Rightarrow> (Inl e, w1)
      | (Inr chunk_counter, w1) \<Rightarrow>
          (case conn_commit env w1 of
             (Inl e, w2) \<Rightarrow> (Inl e, w2)
           | (Inr u, w2) \<Rightarrow>
               (case print env (Stored chunk_counter) w2 of
                  (Inl e, w3) \<Rightarrow> (Inl e, w3)
                | (Inr u', w3) \<Rightarrow> (Inr PyNone, w3))))"

text \<open>
  \<^verbatim>\<open>try\<close> / \<^verbatim>\<open>except Exception\<close> / \<^verbatim>\<open>finally\<close>: an exception that is an instance of
  \<^verbatim>\<open>Exception\<close> is answered by a rollback and raised again; the connection is closed
  on every path.
\<close>

definition try_except_finally ::
  "'v env \<Rightarrow> string \<Rightarrow> string \<Rightarrow> string list \<Rightarrow> 'v world \<Rightarrow> (exn + py_value) \<times> 'v world" where
  "try_except_finally env filename strategy chunks w =
     (case try_body env filename strategy chunks w of
        (Inl e, w1) \<Rightarrow> (Inl e, conn_close (if is_Exception e then conn_rollback w1 else w1))
      | (Inr v, w1) \<Rightarrow> (Inr v, conn_close w1))"

definition process_document ::
  "'v env \<Rightarrow> string \<Rightarrow> string \<Rightarrow> 'v world \<Rightarrow> ((exn + py_value) \<times> 'v world) option" where
  "process_document env file_path strategy w =
     (if \<not> os_path_exists env file_path
      then Some (Inl (FileNotFoundError file_path), called (PathExists file_path) w)
      else
        let filename = path_name file_path
        in (case print env (Processing filename) (called (PathExists file_path) w) of
              (Inl e, w1) \<Rightarrow> Some (Inl e, w1)
            | (Inr u, w1) \<Rightarrow>
                (case extract_text env file_path w1 of
                   (Inl e, w2) \<Rightarrow> Some (Inl e, w2)
                 | (Inr text, w2) \<Rightarrow>
                     (case chunk_text text strategy of
                        None \<Rightarrow> None
                      | Some (Inl e) \<Rightarrow> Some (Inl e, w2)
                      | Some (Inr raw_chunks) \<Rightarrow>
                          (let chunks = map clean_chunk raw_chunks
                           in (case print env (Created (length chunks) strategy) w2 of
                                 (Inl e, w3) \<Rightarrow> Some (Inl e, w3)
                               | (Inr u', w3) \<Rightarrow>
                                   (case get_db_connection env w3 of
                                      (Inl e, w4) \<Rightarrow> Some (Inl e, w4)
                                    | (Inr u'', w4) \<Rightarrow>
                                        Some (try_except_finally env filename strategy
                                                chunks w4))))))))"

section \<open>Auxiliary notions for the proofs\<close>

text \<open>
  A string is collapsed for a character class \<open>p\<close> and a replacement \<open>r\<close> when every
  character of the class in it is \<open>r\<close> and no two characters of the class are adjacent:
  the strings that \<^verbatim>\<open>re.sub(p+, r, _)\<close> leaves as they are.
\<close>

fun collapsed :: "(char \<Rightarrow> bool) \<Rightarrow> char \<Rightarrow> string \<Rightarrow> bool" where
  "collapsed p r [] = True"
| "collapsed p r [c] = (p c \<longrightarrow> c = r)"
| "collapsed p r (c # d # cs) = ((p c \<longrightarrow> c = r \<and> \<not> p d) \<and> collapsed p r (d # cs))"

text \<open>The slices of \<open>xs\<close> of width \<open>n\<close>, from offset 0.\<close>

definition slices :: "nat \<Rightarrow> 'a list \<Rightarrow> 'a list list" where
  "slices n xs = map (\<lambda>k. take n (drop (k * n) xs)) [0..<(length xs + n - 1) div n]"

text \<open>The elements of \<^verbatim>\<open>range(start, stop, step)\<close> for a positive step.\<close>

definition starts :: "int \<Rightarrow> int \<Rightarrow> int \<Rightarrow> int list" where
  "starts start stop step = map (\<lambda>k. start + int k * step) [0..<nat ((stop - start + step - 1) div step)]"

text \<open>
  The sub-chunks that the two loops of \<^verbatim>\<open>process_document\<close> visit, in order: those of
  the first chunk, then those of the second, and so on.
\<close>

definition all_safe_chunks :: "string list \<Rightarrow> string list" where
  "all_safe_chunks chunks =
     concat (map (\<lambda>chunk. case enforce_max_length chunk MAX_CHARS of
                            Inl e \<Rightarrow> [] | Inr safe_chunks \<Rightarrow> safe_chunks) chunks)"

text \<open>
  The exception, if any, of handling the sub-chunk number \<open>n\<close> of a run: that of the
  embedding call, or else that of the insert of the row built from its answer.
\<close>

definition call_failure :: "'v env \<Rightarrow> string \<Rightarrow> string \<Rightarrow> nat \<Rightarrow> string \<Rightarrow> exn option" where
  "call_failure env filename strategy n safe_chunk =
     (case embed_content env n safe_chunk of
        Inl e \<Rightarrow> Some e
      | Inr embedding \<Rightarrow>
          cursor_execute env n \<lparr>row_chunk_text = safe_chunk, row_embedding = embedding,
                                row_filename = filename, row_strategy_split = strategy\<rparr>)"

text \<open>
  The exception, if any, of one turn of the inner loop, for the sub-chunk number \<open>n\<close>:
  that of the embedding call, or else that of the insert, or else that of the progress
  line printed after them.
\<close>

definition step_failure :: "'v env \<Rightarrow> string \<Rightarrow> string \<Rightarrow> nat \<Rightarrow> string \<Rightarrow> exn option" where
  "step_failure env filename strategy n safe_chunk =
     (case call_failure env filename strategy n safe_chunk of
        Some e \<Rightarrow> Some e
      | None \<Rightarrow> print_result env (ProcessedChunk (n + 1)))"

text \<open>
  The first turn to fail when the sub-chunks \<open>ss\<close> are handled from number \<open>n\<close> on, with its
  number and its exception; the rows inserted up to there; the calls made up to there;
  and the outcome of the loop (the final counter, or the exception).
\<close>

fun first_failure :: "'v env \<Rightarrow> string \<Rightarrow> string \<Rightarrow> nat \<Rightarrow> string list \<Rightarrow> (nat \<times> exn) option" where
  "first_failure env filename strategy n [] = None"
| "first_failure env filename strategy n (s # ss) =
     (case step_failure env filename strategy n s of
        Some e \<Rightarrow> Some (n, e)
      | None \<Rightarrow> first_failure env filename strategy (Suc n) ss)"

fun inserted_rows :: "'v env \<Rightarrow> string \<Rightarrow> string \<Rightarrow> nat \<Rightarrow> string list \<Rightarrow> 'v row list" where
  "inserted_rows env filename strategy n [] = []"
| "inserted_rows env filename strategy n (s # ss) =
     (case embed_content env n s of
        Inl e \<Rightarrow> []
      | Inr embedding \<Rightarrow>
          (let r = \<lparr>row_chunk_text = s, row_embedding = embedding,
                     row_filename = filename, row_strategy_split = strategy\<rparr>
           in (case cursor_execute env n r of
                 Some e \<Rightarrow> []
               | None \<Rightarrow>
                   r # (case print_result env (ProcessedChunk (n + 1)) of
                          Some e \<Rightarrow> []
                        | None \<Rightarrow> inserted_rows env filename strategy (Suc n) ss))))"

fun loop_events :: "'v env \<Rightarrow> string \<Rightarrow> string \<Rightarrow> nat \<Rightarrow> string list \<Rightarrow> 'v event list" where
  "loop_events env filename strategy n [] = []"
| "loop_events env filename strategy n (s # ss) =
     Embed s #
     (case embed_content env n s of
        Inl e \<Rightarrow> []
      | Inr embedding \<Rightarrow>
          (let r = \<lparr>row_chunk_text = s, row_embedding = embedding,
                     row_filename = filename, row_strategy_split = strategy\<rparr>
           in Insert r #
              (case cursor_execute env n r of
                 Some e \<Rightarrow> []
               | None \<Rightarrow>
                   (case print_result env (ProcessedChunk (n + 1)) of
                      Some e \<Rightarrow> []
                    | None \<Rightarrow> loop_events env filename strategy (Suc n) ss))))"

definition loop_result :: "'v env \<Rightarrow> string \<Rightarrow> string \<Rightarrow> nat \<Rightarrow> string list \<Rightarrow> exn + nat" where
  "loop_result env filename strategy n ss =
     (case first_failure env filename strategy n ss of
        None \<Rightarrow> Inr (n + length ss) | Some (k, e) \<Rightarrow> Inl e)"

text \<open>
  The texts handed to the embedding client, read off a trace.
\<close>

fun embedded :: "'v event list \<Rightarrow> string list" where
  "embedded [] = []"
| "embedded (Embed t # evs) = t # embedded evs"
| "embedded (ev # evs) = embedded evs"

text \<open>
  The collaborator that \<^verbatim>\<open>extract_text\<close> calls for a path, and the state of a run when
  it enters the \<^verbatim>\<open>try\<close> statement (its first two lines printed), \<open>n\<close> being the number
  of chunks.
\<close>

definition extract_events :: "string \<Rightarrow> 'v event list" where
  "extract_events file_path =
     (if file_ext file_path = ''.pdf'' then [ReadPdf file_path]
      else if file_ext file_path = ''.docx'' then [ReadDocx file_path] else [])"

definition connected :: "string \<Rightarrow> string \<Rightarrow> nat \<Rightarrow> 'v world \<Rightarrow> 'v world" where
  "connected file_path strategy n w =
     w\<lparr>pending := [], txn := Open, closed := False,
       trace := trace w @ [PathExists file_path] @ extract_events file_path @ [Connect],
       stdout := stdout w @ [Processing (path_name file_path), Created n strategy]\<rparr>"

section \<open>Example inputs\<close>

text \<open>
  Four outside worlds in which every path exists, the database accepts every insert
  and the commit, and an embedding is the one-element vector of the length of its text.
  In \<open>good_env\<close> every embedding call succeeds and every line is printed; in
  \<open>failing_env\<close> the second embedding call of a run raises; in \<open>blank_env\<close> the only page
  of every PDF is the letter \<^verbatim>\<open>a\<close>, 11999 carriage returns and the letter \<^verbatim>\<open>b\<close>; in
  \<open>ascii_stdout_env\<close> the standard output cannot encode the check mark, so that printing
  the last line raises.
\<close>

definition good_env :: "int list env" where
  "good_env =
     \<lparr>os_path_exists = (\<lambda>p. True),
      PdfReader_pages = (\<lambda>p. Inr [Inr ''Hello world. Bye!'']),
      Document_paragraphs = (\<lambda>p. Inr [''one'', '''', ''two'', ''three'']),
      psycopg2_connect = None,
      embed_content = (\<lambda>n t. Inr [int (length t)]),
      cursor_execute = (\<lambda>n r. None),
      conn_commit_result = None,
      print_result = (\<lambda>m. None)\<rparr>"

definition failing_env :: "int list env" where
  "failing_env = good_env\<lparr>embed_content :=
     (\<lambda>n t. if n = 1 then Inl (Raised True ''quota exceeded'') else Inr [int (length t)])\<rparr>"

definition long_blank_paragraph :: string where
  "long_blank_paragraph = CHR ''a'' # replicate 11999 (CHR 0x0D) @ ''b''"

definition blank_env :: "int list env" where
  "blank_env = good_env\<lparr>PdfReader_pages := (\<lambda>p. Inr [Inr long_blank_paragraph])\<rparr>"

definition ascii_stdout_env :: "int list env" where
  "ascii_stdout_env = good_env\<lparr>print_result :=
     (\<lambda>m. case m of Stored n \<Rightarrow> Some (Raised True ''UnicodeEncodeError'') | _ \<Rightarrow> None)\<rparr>"

definition empty_world :: "int list world" where
  "empty_world = \<lparr>table = [], pending = [], txn = NotConnected, closed = False, trace = [], stdout = []\<rparr>"

declare split_text_fixed_loop.simps [code]

section \<open>Properties of the text normalizer\<close>

lemma length_sub_runs: "length (sub_runs p r s) \<le> length s"
proof (induction p r s rule: sub_runs.induct)
  case (1 p r)
  then show ?case by simp
next
  case (2 p r c cs)
  show ?case
  proof (cases "p c")
    case True
    have "length (sub_runs p r (dropWhile p cs)) \<le> length (dropWhile p cs)"
      using 2(1) True by simp
    also have "\<dots> \<le> length cs" by (rule length_dropWhile_le)
    finally show ?thesis using True by simp
  next
    case False
    then show ?thesis using 2(2) by simp
  qed
qed

lemma length_strip: "length (strip s) \<le> length s"
proof -
  have "length (strip s) \<le> length (dropWhile isspace s)"
    unfolding strip_def using length_dropWhile_le [of isspace "rev (dropWhile isspace s)"] by simp
  also have "\<dots> \<le> length s" by (rule length_dropWhile_le)
  finally show ?thesis .
qed

lemma length_clean_chunk: "length (clean_chunk t) \<le> length t"
proof -
  have "length (clean_chunk t) \<le> length (sub_runs is_newline (CHR 0x0A) (sub_runs is_blank (CHR '' '') t))"
    by (simp add: clean_chunk_def length_strip)
  also have "\<dots> \<le> length (sub_runs is_blank (CHR '' '') t)" by (rule length_sub_runs)
  also have "\<dots> \<le> length t" by (rule length_sub_runs)
  finally show ?thesis .
qed

lemma collapsed_fixed: "collapsed p r s \<Longrightarrow> sub_runs p r s = s"
proof (induction p r s rule: collapsed.induct)
  case (3 p r c d cs)
  then show ?case by (cases "p c") auto
qed auto

lemma sub_runs_hd: "s \<noteq> [] \<Longrightarrow> \<not> p (hd s) \<Longrightarrow> sub_runs p r s = hd s # sub_runs p r (tl s)"
  by (cases s) auto

lemma collapsed_Cons: "collapsed p r (c # s) = ((p c \<longrightarrow> c = r \<and> (s \<noteq> [] \<longrightarrow> \<not> p (hd s))) \<and> collapsed p r s)"
  by (cases s) auto

lemma sub_runs_Nil_iff: "sub_runs p r s = [] \<longleftrightarrow> s = []"
  by (cases s) auto

lemma hd_sub_runs: "s \<noteq> [] \<Longrightarrow> hd (sub_runs p r s) = (if p (hd s) then r else hd s)"
  by (cases s) auto

lemma collapsed_sub_runs: "p r \<Longrightarrow> collapsed p r (sub_runs p r s)"
proof (induction p r s rule: sub_runs.induct)
  case (1 p r)
  then show ?case by simp
next
  case (2 p r c cs)
  show ?case
  proof (cases "p c")
    case True
    let ?d = "dropWhile p cs"
    have ih: "collapsed p r (sub_runs p r ?d)" using 2 True by simp
    have "sub_runs p r ?d \<noteq> [] \<Longrightarrow> \<not> p (hd (sub_runs p r ?d))"
    proof -
      assume "sub_runs p r ?d \<noteq> []"
      then have ne: "?d \<noteq> []" by (simp add: sub_runs_Nil_iff)
      then have "\<not> p (hd ?d)" by (rule hd_dropWhile)
      then show ?thesis using ne by (simp add: hd_sub_runs)
    qed
    then show ?thesis using True ih by (simp add: collapsed_Cons)
  next
    case False
    then show ?thesis using 2 by (simp add: collapsed_Cons)
  qed
qed

lemma collapsed_append_right: "collapsed p r (a @ b) \<Longrightarrow> collapsed p r b"
  by (induction a) (auto simp: collapsed_Cons)

lemma collapsed_append_left: "collapsed p r (a @ b) \<Longrightarrow> collapsed p r a"
  by (induction a) (auto simp: collapsed_Cons)

lemma collapsed_dropWhile: "collapsed p r s \<Longrightarrow> collapsed p r (dropWhile f s)"
  using collapsed_append_right [of p r "takeWhile f s" "dropWhile f s"] by simp

lemma collapsed_sub_runs_other:
  "\<not> p r' \<Longrightarrow> collapsed p r s \<Longrightarrow> collapsed p r (sub_runs q r' s)"
proof (induction q r' s rule: sub_runs.induct)
  case (1 q r')
  then show ?case by simp
next
  case (2 q r' c cs)
  have tl: "collapsed p r cs" using 2(4) by (simp add: collapsed_Cons)
  show ?case
  proof (cases "q c")
    case True
    have "collapsed p r (dropWhile q cs)" using tl by (rule collapsed_dropWhile)
    then have "collapsed p r (sub_runs q r' (dropWhile q cs))" using 2 True by simp
    then show ?thesis using True 2(3) by (simp add: collapsed_Cons)
  next
    case False
    have ih: "collapsed p r (sub_runs q r' cs)" using 2 False tl by simp
    have "p c \<Longrightarrow> sub_runs q r' cs \<noteq> [] \<Longrightarrow> \<not> p (hd (sub_runs q r' cs))"
      using 2(3,4) by (auto simp: collapsed_Cons hd_sub_runs sub_runs_Nil_iff)
    then show ?thesis using False ih 2(4) by (auto simp: collapsed_Cons)
  qed
qed

lemma rev_split_while: "xs = rev (dropWhile P (rev xs)) @ rev (takeWhile P (rev xs))"
proof -
  have "rev (takeWhile P (rev xs) @ dropWhile P (rev xs)) = xs"
    by (simp only: takeWhile_dropWhile_id rev_rev_ident)
  then show ?thesis by (simp only: rev_append)
qed

lemma strip_decomp: "\<exists>a b. s = a @ strip s @ b"
proof -
  let ?d = "dropWhile isspace s"
  have "s = takeWhile isspace s @ ?d" by simp
  moreover have "?d = strip s @ rev (takeWhile isspace (rev ?d))"
    unfolding strip_def by (rule rev_split_while)
  ultimately show ?thesis by metis
qed

lemma collapsed_strip: "collapsed p r s \<Longrightarrow> collapsed p r (strip s)"
proof -
  assume c: "collapsed p r s"
  obtain a b where "s = a @ strip s @ b" using strip_decomp by blast
  then have "collapsed p r (a @ strip s @ b)" using c by simp
  then have "collapsed p r (strip s @ b)" by (rule collapsed_append_right)
  then show ?thesis by (rule collapsed_append_left)
qed

lemma dropWhile_id: "s = [] \<or> \<not> p (hd s) \<Longrightarrow> dropWhile p s = s"
  by (cases s) auto

lemma strip_Nil_or_ends: "strip s = [] \<or> (\<not> isspace (hd (strip s)) \<and> \<not> isspace (last (strip s)))"
proof (cases "strip s = []")
  case True
  then show ?thesis by simp
next
  case False
  let ?d = "dropWhile isspace s"
  let ?e = "dropWhile isspace (rev ?d)"
  have e: "?e \<noteq> []" using False by (simp add: strip_def)
  then have he: "\<not> isspace (hd ?e)" by (rule hd_dropWhile)
  have last: "last (strip s) = hd ?e" using e by (simp add: strip_def last_rev)
  have d: "?d \<noteq> []"
  proof
    assume "?d = []"
    then have "?e = []" by (simp only: rev.simps dropWhile.simps)
    with e show False by blast
  qed
  then have hd: "\<not> isspace (hd ?d)" by (rule hd_dropWhile)
  have "?d = strip s @ rev (takeWhile isspace (rev ?d))"
    unfolding strip_def by (rule rev_split_while)
  then have "hd ?d = hd (strip s)" using False by (metis hd_append2)
  then show ?thesis using hd he last by simp
qed

lemma strip_id: "s = [] \<or> (\<not> isspace (hd s) \<and> \<not> isspace (last s)) \<Longrightarrow> strip s = s"
proof (cases "s = []")
  case True
  then show ?thesis by (simp add: strip_def)
next
  case False
  assume "s = [] \<or> (\<not> isspace (hd s) \<and> \<not> isspace (last s))"
  then have h: "\<not> isspace (hd s)" and l: "\<not> isspace (last s)" using False by auto
  have 1: "dropWhile isspace s = s" using h by (simp add: dropWhile_id)
  have "hd (rev s) = last s" using False by (simp add: hd_rev)
  then have 2: "dropWhile isspace (rev s) = rev s" using l by (simp add: dropWhile_id)
  show ?thesis by (simp add: strip_def 1 2)
qed

lemma strip_strip: "strip (strip s) = strip s"
  using strip_Nil_or_ends [of s] by (rule strip_id)

lemma clean_chunk_idem: "clean_chunk (clean_chunk t) = clean_chunk t"
proof -
  let ?b = "sub_runs is_blank (CHR '' '') t"
  let ?n = "sub_runs is_newline (CHR 0x0A) ?b"
  have u: "clean_chunk t = strip ?n" by (simp add: clean_chunk_def)
  have "collapsed is_blank (CHR '' '') ?b" by (rule collapsed_sub_runs) (simp add: is_blank_def)
  then have "collapsed is_blank (CHR '' '') ?n"
    by (rule collapsed_sub_runs_other [rotated]) (simp add: is_blank_def)
  then have b: "collapsed is_blank (CHR '' '') (strip ?n)" by (rule collapsed_strip)
  have "collapsed is_newline (CHR 0x0A) ?n" by (rule collapsed_sub_runs) (simp add: is_newline_def)
  then have n: "collapsed is_newline (CHR 0x0A) (strip ?n)" by (rule collapsed_strip)
  have "clean_chunk (strip ?n) = strip (strip ?n)"
    by (simp add: clean_chunk_def collapsed_fixed [OF b] collapsed_fixed [OF n])
  then show ?thesis by (simp add: u strip_strip)
qed

lemma strip_Nil_iff: "strip s = [] \<longleftrightarrow> (\<forall>c \<in> set s. isspace c)"
proof
  assume "strip s = []"
  then have "dropWhile isspace (rev (dropWhile isspace s)) = []" by (simp add: strip_def)
  then have "\<forall>c \<in> set (dropWhile isspace s). isspace c" by (simp add: dropWhile_eq_Nil_conv)
  then have "dropWhile isspace s = []"
    using hd_dropWhile [of isspace s] by (metis hd_in_set)
  then show "\<forall>c \<in> set s. isspace c" by (simp add: dropWhile_eq_Nil_conv)
next
  assume "\<forall>c \<in> set s. isspace c"
  then have d: "dropWhile isspace s = []" by (simp add: dropWhile_eq_Nil_conv)
  show "strip s = []" unfolding strip_def by (simp only: d rev.simps dropWhile.simps)
qed

lemma all_space_sub_runs:
  "(\<forall>c. p c \<longrightarrow> isspace c) \<Longrightarrow> isspace r \<Longrightarrow>
     (\<forall>c \<in> set (sub_runs p r s). isspace c) \<longleftrightarrow> (\<forall>c \<in> set s. isspace c)"
proof (induction p r s rule: sub_runs.induct)
  case (1 p r)
  then show ?case by simp
next
  case (2 p r c cs)
  show ?case
  proof (cases "p c")
    case True
    have "set cs = set (takeWhile p cs) \<union> set (dropWhile p cs)"
      by (metis set_append takeWhile_dropWhile_id)
    moreover have "\<forall>x \<in> set (takeWhile p cs). isspace x"
      using 2(3) by (auto dest: set_takeWhileD)
    ultimately have "(\<forall>x \<in> set cs. isspace x) \<longleftrightarrow> (\<forall>x \<in> set (dropWhile p cs). isspace x)"
      by auto
    moreover have "(\<forall>x \<in> set (sub_runs p r (dropWhile p cs)). isspace x)
        \<longleftrightarrow> (\<forall>x \<in> set (dropWhile p cs). isspace x)"
      using 2(1) [OF True 2(3,4)] .
    ultimately show ?thesis using True 2(3,4) by simp
  next
    case False
    then show ?thesis using 2 by simp
  qed
qed

lemma isspace_blank: "is_blank c \<Longrightarrow> isspace c"
  by (auto simp: is_blank_def isspace_def)

lemma isspace_newline: "is_newline c \<Longrightarrow> isspace c"
  by (auto simp: is_newline_def isspace_def)

lemma isspace_literals: "isspace (CHR 0x0A)" "isspace (CHR '' '')" "isspace (CHR 0x0D)"
  by (simp_all add: isspace_def)

lemma clean_chunk_Nil_iff: "clean_chunk c = [] \<longleftrightarrow> strip c = []"
proof -
  have "clean_chunk c = [] \<longleftrightarrow>
      (\<forall>x \<in> set (sub_runs is_newline (CHR 0x0A) (sub_runs is_blank (CHR '' '') c)). isspace x)"
    by (simp add: clean_chunk_def strip_Nil_iff)
  also have "\<dots> \<longleftrightarrow> (\<forall>x \<in> set (sub_runs is_blank (CHR '' '') c). isspace x)"
    by (rule all_space_sub_runs) (simp_all add: isspace_newline isspace_literals)
  also have "\<dots> \<longleftrightarrow> (\<forall>x \<in> set c. isspace x)"
    by (rule all_space_sub_runs) (simp_all add: isspace_blank isspace_literals)
  finally show ?thesis by (simp add: strip_Nil_iff)
qed

lemma strip_clean_chunk: "strip (clean_chunk c) = clean_chunk c"
  by (simp add: clean_chunk_def strip_strip)

lemma sub_runs_none: "\<forall>c \<in> set s. \<not> p c \<Longrightarrow> sub_runs p r s = s"
  by (induction s) auto

text \<open>
  Claim C9.  For every string \<open>t\<close>, the empty string included, the normalizer
  \<open>clean_chunk\<close> is idempotent, and the length of \<open>clean_chunk t\<close> never exceeds the
  length of \<open>t\<close>.
\<close>

theorem clean_chunk_idempotent_and_not_longer:
  "clean_chunk (clean_chunk t) = clean_chunk t \<and> length (clean_chunk t) \<le> length t"
  by (simp add: clean_chunk_idem length_clean_chunk)

section \<open>Properties of the length enforcer\<close>

lemma py_slice_nonneg:
  "0 \<le> i \<Longrightarrow> 0 \<le> j \<Longrightarrow> py_slice xs i j = take (nat j - nat i) (drop (nat i) xs)"
  by (auto simp: py_slice_def clamp_index_def Let_def min_def)

lemma py_range_pos:
  "0 < step \<Longrightarrow> py_range 0 (int n) step = Inr (map (\<lambda>k. int (k * nat step)) [0..<(n + nat step - 1) div nat step])"
proof -
  assume s: "0 < step"
  have "int n - 0 + step - 1 = int (n + nat step - 1)" "step = int (nat step)" using s by auto
  then have "(int n - 0 + step - 1) div step = int ((n + nat step - 1) div nat step)"
    by (metis zdiv_int)
  then have "nat ((int n - 0 + step - 1) div step) = (n + nat step - 1) div nat step"
    by simp
  moreover have "\<And>k. 0 + int k * step = int (k * nat step)" using s by simp
  ultimately show ?thesis using s by (simp add: py_range_def)
qed

lemma enforce_max_length_pos:
  "0 < max_chars \<Longrightarrow> enforce_max_length text max_chars = Inr (slices (nat max_chars) text)"
proof -
  assume s: "0 < max_chars"
  have "\<And>k. py_slice text (int (k * nat max_chars)) (int (k * nat max_chars) + max_chars)
       = take (nat max_chars) (drop (k * nat max_chars) text)"
    using s by (simp add: py_slice_nonneg nat_add_distrib nat_mult_distrib)
  then show ?thesis using s by (simp add: enforce_max_length_def py_range_pos slices_def)
qed

lemma concat_slices_take: "0 < n \<Longrightarrow> concat (map (\<lambda>k. take n (drop (k * n) xs)) [0..<m]) = take (m * n) xs"
proof (induction m)
  case 0
  then show ?case by simp
next
  case (Suc m)
  have "take (m * n) xs @ take n (drop (m * n) xs) = take (m * n + n) xs"
    by (simp add: take_add)
  then show ?case using Suc by (simp add: add.commute)
qed

lemma ceil_div_mult: "0 < n \<Longrightarrow> (a::nat) \<le> ((a + n - 1) div n) * n"
proof -
  assume n: "0 < n"
  have "(a + n - 1) div n * n + (a + n - 1) mod n = a + n - 1" by (rule div_mult_mod_eq)
  moreover have "(a + n - 1) mod n < n" using n by simp
  ultimately show ?thesis by linarith
qed

lemma concat_slices: "0 < n \<Longrightarrow> concat (slices n xs) = xs"
proof -
  assume n: "0 < n"
  have "length xs \<le> ((length xs + n - 1) div n) * n" using n by (rule ceil_div_mult)
  then show ?thesis using n by (simp add: slices_def concat_slices_take)
qed

lemma slices_length: "s \<in> set (slices n xs) \<Longrightarrow> length s \<le> n"
  by (auto simp: slices_def)

lemma slices_Nil: "slices n [] = []"
  by (cases "n = 0") (simp_all add: slices_def)

lemma slices_single: "xs \<noteq> [] \<Longrightarrow> length xs \<le> n \<Longrightarrow> slices n xs = [xs]"
proof -
  assume a: "xs \<noteq> []" "length xs \<le> n"
  then have l: "0 < length xs" by simp
  then have n: "0 < n" using a by linarith
  have "length xs + n - 1 = n + (length xs - 1)" using l by arith
  moreover have "(n + (length xs - 1)) div n = (length xs - 1) div n + 1"
    using n by (intro div_add_self1) simp
  moreover have "length xs - 1 < n" using l a(2) by arith
  then have "(length xs - 1) div n = 0" by (rule div_less)
  ultimately have "(length xs + n - 1) div n = 1" by simp
  then show ?thesis using a by (simp add: slices_def)
qed

lemma ceil_div_less: "0 < n \<Longrightarrow> k < ((a::nat) + n - 1) div n \<Longrightarrow> k * n < a"
proof -
  assume n: "0 < n" and k: "k < (a + n - 1) div n"
  then have "Suc k \<le> (a + n - 1) div n" by simp
  then have "Suc k * n \<le> (a + n - 1) div n * n" by (rule mult_le_mono1)
  also have "\<dots> \<le> a + n - 1" by (simp add: div_times_less_eq_dividend)
  finally show ?thesis using n by simp
qed

lemma slices_nonempty: "0 < n \<Longrightarrow> s \<in> set (slices n xs) \<Longrightarrow> s \<noteq> []"
  by (auto simp: slices_def dest: ceil_div_less)

lemma enforce_max_length_single:
  "c \<noteq> [] \<Longrightarrow> int (length c) \<le> MAX_CHARS \<Longrightarrow> enforce_max_length c MAX_CHARS = Inr [c]"
proof -
  assume ne: "c \<noteq> []" and "int (length c) \<le> MAX_CHARS"
  then have "length c \<le> nat MAX_CHARS" by linarith
  with ne have "slices (nat MAX_CHARS) c = [c]" by (rule slices_single)
  moreover have "enforce_max_length c MAX_CHARS = Inr (slices (nat MAX_CHARS) c)"
    by (rule enforce_max_length_pos) (simp add: MAX_CHARS_def)
  ultimately show ?thesis by simp
qed

text \<open>
  Claim C3.  For every string \<open>t\<close> and every \<open>maxChars > 0\<close>, the sequence returned by
  \<open>enforce_max_length t maxChars\<close>, concatenated in order, is \<open>t\<close> again, and every
  element of the sequence has length at most \<open>maxChars\<close>.
\<close>

theorem enforce_max_length_reconstructs:
  assumes "0 < maxChars"
  shows "\<exists>ss. enforce_max_length t maxChars = Inr ss \<and> concat ss = t \<and>
           (\<forall>s \<in> set ss. int (length s) \<le> maxChars)"
proof -
  have n: "0 < nat maxChars" using assms by simp
  have "\<forall>s \<in> set (slices (nat maxChars) t). int (length s) \<le> maxChars"
  proof
    fix s assume "s \<in> set (slices (nat maxChars) t)"
    then have "length s \<le> nat maxChars" by (rule slices_length)
    then show "int (length s) \<le> maxChars" using assms by linarith
  qed
  then show ?thesis
    using assms by (simp add: enforce_max_length_pos concat_slices [OF n])
qed

theorem enforce_max_length_reconstructs_witness:
  "(0::int) < 3 \<and> (\<exists>ss. enforce_max_length ''abcdefg'' 3 = Inr ss \<and> concat ss = ''abcdefg'' \<and>
           (\<forall>s \<in> set ss. int (length s) \<le> 3))"
  using enforce_max_length_reconstructs [of 3 "''abcdefg''"] by simp

text \<open>
  Claim C4, as the code has it.  For every \<open>maxChars > 0\<close>: a non-empty chunk gives a
  sequence of one or more substrings; a non-empty chunk of length at most \<open>maxChars\<close>
  gives the single-element sequence of the chunk itself; the empty string gives the
  empty sequence (and not the sequence of one empty string).
\<close>

theorem enforce_max_length_short_chunk:
  assumes "0 < maxChars"
  shows "(chunk \<noteq> [] \<longrightarrow> (\<exists>s ss. enforce_max_length chunk maxChars = Inr (s # ss))) \<and>
         (chunk \<noteq> [] \<and> int (length chunk) \<le> maxChars \<longrightarrow>
            enforce_max_length chunk maxChars = Inr [chunk]) \<and>
         (chunk = [] \<longrightarrow> enforce_max_length chunk maxChars = Inr [])"
proof -
  have n: "0 < nat maxChars" using assms by simp
  have e: "enforce_max_length chunk maxChars = Inr (slices (nat maxChars) chunk)"
    using assms by (rule enforce_max_length_pos)
  have "chunk \<noteq> [] \<Longrightarrow> slices (nat maxChars) chunk \<noteq> []"
    using concat_slices [OF n, of chunk] by auto
  then have 1: "chunk \<noteq> [] \<longrightarrow> (\<exists>s ss. slices (nat maxChars) chunk = s # ss)"
    by (simp add: neq_Nil_conv)
  have 2: "chunk \<noteq> [] \<and> int (length chunk) \<le> maxChars \<longrightarrow> slices (nat maxChars) chunk = [chunk]"
  proof (intro impI, elim conjE)
    assume ne: "chunk \<noteq> []" and "int (length chunk) \<le> maxChars"
    then have "length chunk \<le> nat maxChars" by linarith
    with ne show "slices (nat maxChars) chunk = [chunk]" by (rule slices_single)
  qed
  have 3: "chunk = [] \<longrightarrow> slices (nat maxChars) chunk = []"
    by (simp add: slices_Nil)
  show ?thesis unfolding e using 1 2 3 by blast
qed

theorem enforce_max_length_short_chunk_witness:
  "(0::int) < 5 \<and> ''abc'' \<noteq> [] \<and> int (length ''abc'') \<le> 5 \<and>
     enforce_max_length ''abc'' 5 = Inr [''abc'']"
  using enforce_max_length_short_chunk [of 5 "''abc''"] by simp

text \<open>
  Claim C4 as stated fails at the empty string: with the budget \<open>MAX_CHARS\<close> the result
  is the empty sequence, which is neither of one or more substrings nor the
  single-element sequence of the input.
\<close>

theorem enforce_max_length_empty_counterexample:
  "enforce_max_length [] MAX_CHARS = Inr [] \<and> enforce_max_length [] MAX_CHARS \<noteq> Inr [[]]"
  by (simp add: enforce_max_length_def py_range_def MAX_CHARS_def)

section \<open>Properties of the chunk strategies\<close>

lemma starts_Nil: "0 < step \<Longrightarrow> stop \<le> start \<Longrightarrow> starts start stop step = []"
proof -
  assume s: "0 < step" and le: "stop \<le> start"
  then have "stop - start + step - 1 \<le> step - 1" by simp
  then have "(stop - start + step - 1) div step \<le> (step - 1) div step"
    using s by (rule zdiv_mono1)
  moreover have "(step - 1) div step = 0" using s by (simp add: div_pos_pos_trivial)
  ultimately show ?thesis by (simp add: starts_def)
qed

lemma starts_Cons:
  "0 < step \<Longrightarrow> start < stop \<Longrightarrow> starts start stop step = start # starts (start + step) stop step"
proof -
  assume s: "0 < step" and lt: "start < stop"
  define a where "a = stop - (start + step) + step - 1"
  define m where "m = nat (a div step)"
  have "stop - start + step - 1 = a + step" by (simp add: a_def)
  then have d: "(stop - start + step - 1) div step = a div step + 1"
    using s by (metis div_add_self2 less_irrefl)
  have "0 \<le> a" using lt by (simp add: a_def)
  then have "0 \<le> a div step" using s by (simp add: pos_imp_zdiv_nonneg_iff)
  then have n: "nat ((stop - start + step - 1) div step) = Suc m" by (simp add: d m_def)
  have u: "[0..<Suc m] = 0 # map Suc [0..<m]"
    by (simp add: upt_conv_Cons map_Suc_upt del: upt_Suc)
  have "starts start stop step = map (\<lambda>k. start + int k * step) [0..<Suc m]"
    by (simp only: starts_def n)
  also have "\<dots> = start # map (\<lambda>k. (start + step) + int k * step) [0..<m]"
    by (simp only: u) (simp add: o_def algebra_simps)
  also have "map (\<lambda>k. (start + step) + int k * step) [0..<m] = starts (start + step) stop step"
    by (simp only: starts_def m_def a_def)
  finally show ?thesis .
qed

lemma loop_starts:
  assumes "0 < chunk_size - overlap"
  shows "split_text_fixed_loop text chunk_size overlap start chunks =
     Some (chunks @ filter (\<lambda>c. strip c \<noteq> [])
        (map (\<lambda>s. py_slice text s (s + chunk_size)) (starts start (int (length text)) (chunk_size - overlap))))"
proof (induction "nat (int (length text) - start)" arbitrary: start chunks rule: less_induct)
  case less
  show ?case
  proof (cases "start < int (length text)")
    case True
    let ?step = "chunk_size - overlap"
    have "nat (int (length text) - (start + ?step)) < nat (int (length text) - start)"
      using True assms by simp
    note ih = less [OF this]
    show ?thesis
      apply (subst split_text_fixed_loop.simps)
      apply (simp add: True Let_def ih starts_Cons [OF assms True])
      done
  next
    case False
    then show ?thesis
      apply (subst split_text_fixed_loop.simps)
      apply (simp add: starts_Nil [OF assms])
      done
  qed
qed

lemma starts_count:
  assumes "0 < step"
  shows "i < nat ((int n + step - 1) div step) \<longleftrightarrow> int i * step < int n"
proof -
  define q where "q = (int n + step - 1) div step"
  define r where "r = (int n + step - 1) mod step"
  have e: "int n + step - 1 = q * step + r" by (simp add: q_def r_def)
  have r: "0 \<le> r" "r < step" using assms by (simp_all add: r_def)
  have "int i < q \<longleftrightarrow> int i * step < int n"
  proof
    assume "int i < q"
    then have "int i + 1 \<le> q" by simp
    then have "(int i + 1) * step \<le> q * step" using assms by (simp add: mult_right_mono)
    then show "int i * step < int n" using e r by (simp add: algebra_simps)
  next
    assume a: "int i * step < int n"
    show "int i < q"
    proof (rule ccontr)
      assume "\<not> int i < q"
      then have "q \<le> int i" by simp
      then have "q * step \<le> int i * step" using assms by (simp add: mult_right_mono)
      then show False using a e r by linarith
    qed
  qed
  then show ?thesis by (auto simp: q_def)
qed

lemma fixed_windows:
  assumes "0 \<le> overlap" and "overlap < chunk_size"
  shows "\<exists>n. (\<forall>i. i < n \<longleftrightarrow> int i * (chunk_size - overlap) < int (length text)) \<and>
     split_text_fixed text chunk_size overlap =
       Some (filter (\<lambda>w. strip w \<noteq> [])
         (map (\<lambda>i. take (nat chunk_size) (drop (i * nat (chunk_size - overlap)) text)) [0..<n]))"
proof -
  let ?step = "chunk_size - overlap"
  let ?n = "nat ((int (length text) + ?step - 1) div ?step)"
  have step: "0 < ?step" using assms by simp
  have cnt: "\<forall>i. i < ?n \<longleftrightarrow> int i * ?step < int (length text)"
    using starts_count [OF step] by blast
  have w: "\<And>i. py_slice text (int i * ?step) (int i * ?step + chunk_size)
      = take (nat chunk_size) (drop (i * nat ?step) text)"
    using step assms by (simp add: py_slice_nonneg nat_add_distrib nat_mult_distrib)
  have "split_text_fixed text chunk_size overlap = Some (filter (\<lambda>c. strip c \<noteq> [])
        (map (\<lambda>s. py_slice text s (s + chunk_size)) (starts 0 (int (length text)) ?step)))"
    by (simp add: split_text_fixed_def loop_starts [OF step])
  also have "map (\<lambda>s. py_slice text s (s + chunk_size)) (starts 0 (int (length text)) ?step)
     = map (\<lambda>i. take (nat chunk_size) (drop (i * nat ?step) text)) [0..<?n]"
    by (simp add: starts_def o_def w)
  finally show ?thesis using cnt by blast
qed

lemma split_text_fixed_default:
  "\<exists>chunks. split_text_fixed text 500 50 = Some chunks \<and>
     (\<forall>c \<in> set chunks. length c \<le> 500 \<and> strip c \<noteq> [])"
proof -
  obtain n where "split_text_fixed text 500 50 =
       Some (filter (\<lambda>w. strip w \<noteq> [])
         (map (\<lambda>i. take (nat 500) (drop (i * nat (500 - 50)) text)) [0..<n]))"
    using fixed_windows [of 50 500 "text"] by auto
  then show ?thesis by auto
qed

lemma chunk_text_nonblank:
  "chunk_text text strategy = Some (Inr raw_chunks) \<Longrightarrow> \<forall>c \<in> set raw_chunks. strip c \<noteq> []"
  using split_text_fixed_default [of "text"]
  by (auto simp: chunk_text_def split_text_sentence_def split_text_paragraph_def Let_def
      split: if_splits)

lemma str_split_no_sep:
  "sep \<notin> set xs \<Longrightarrow> str_split sep cur (xs @ sep # rest) = (cur @ xs) # str_split sep [] rest"
  by (induction xs arbitrary: cur) auto

text \<open>
  Claim C5.  For every text and every configuration with \<open>0 \<le> overlap < chunk_size\<close>,
  \<open>split_text_fixed\<close> returns.  With \<open>n\<close> the number of indices \<open>i\<close> whose start offset
  \<open>i * (chunk_size - overlap)\<close> is within the text, its result is the windows
  \<open>i = 0, \<dots>, n - 1\<close> in increasing order, window \<open>i\<close> being the text from offset
  \<open>i * (chunk_size - overlap)\<close> to offset \<open>i * (chunk_size - overlap) + chunk_size\<close>, less
  the windows whose stripped content is empty: an omitted window does not shift the
  offsets of the later ones.
\<close>

theorem split_text_fixed_windows:
  assumes "0 \<le> overlap" and "overlap < chunk_size"
  shows "\<exists>n. (\<forall>i. i < n \<longleftrightarrow> int i * (chunk_size - overlap) < int (length text)) \<and>
     split_text_fixed text chunk_size overlap =
       Some (filter (\<lambda>w. strip w \<noteq> [])
         (map (\<lambda>i. take (nat chunk_size) (drop (i * nat (chunk_size - overlap)) text)) [0..<n]))"
  using assms by (rule fixed_windows)

text \<open>
  On twelve characters with windows of 4 and overlap 1 the offsets are 0, 3, 6 and 9;
  the window at offset 6 is blank and is left out, and the one at offset 9 is cut at
  the end of the text.
\<close>

theorem split_text_fixed_windows_witness:
  "(0::int) \<le> 1 \<and> (1::int) < 4 \<and>
   split_text_fixed ''abcd      ij'' 4 1 = Some [''abcd'', ''d   '', '' ij'']"
proof -
  have h: "(0::int) \<le> 1" "(1::int) < 4" by simp_all
  obtain n where n: "\<forall>i. i < n \<longleftrightarrow> int i * (4 - 1) < int (length ''abcd      ij'')"
    and r: "split_text_fixed ''abcd      ij'' 4 1 =
       Some (filter (\<lambda>w. strip w \<noteq> [])
         (map (\<lambda>i. take (nat 4) (drop (i * nat (4 - 1)) ''abcd      ij'')) [0..<n]))"
    using split_text_fixed_windows [OF h, of "''abcd      ij''"] by blast
  have "3 < n" using n [rule_format, of 3] by simp
  moreover have "\<not> 4 < n" using n [rule_format, of 4] by simp
  ultimately have n4: "n = 4" by linarith
  have "filter (\<lambda>w. strip w \<noteq> [])
         (map (\<lambda>i. take (nat 4) (drop (i * nat (4 - 1)) ''abcd      ij'')) [0..<4])
      = [''abcd'', ''d   '', '' ij'']"
    by code_simp
  then show ?thesis using r h unfolding n4 by simp
qed

section \<open>The two loops\<close>

lemma all_safe_chunks_slices:
  "all_safe_chunks chunks = concat (map (slices (nat MAX_CHARS)) chunks)"
proof -
  have "\<And>c. enforce_max_length c MAX_CHARS = Inr (slices (nat MAX_CHARS) c)"
    by (rule enforce_max_length_pos) (simp add: MAX_CHARS_def)
  then show ?thesis by (simp add: all_safe_chunks_def)
qed

lemma all_safe_chunks_short:
  "(\<forall>c \<in> set chunks. c \<noteq> [] \<and> int (length c) \<le> MAX_CHARS) \<Longrightarrow> all_safe_chunks chunks = chunks"
proof (induction chunks)
  case Nil
  then show ?case by (simp add: all_safe_chunks_def)
next
  case (Cons c cs)
  have "enforce_max_length c MAX_CHARS = Inr [c]"
    using Cons.prems by (simp add: enforce_max_length_single)
  then show ?case using Cons by (simp add: all_safe_chunks_def)
qed

lemma in_all_safe_chunks:
  assumes "s \<in> set (all_safe_chunks chunks)"
  shows "s \<noteq> [] \<and> int (length s) \<le> MAX_CHARS \<and>
     (\<exists>c \<in> set chunks. \<exists>i. s = take (nat MAX_CHARS) (drop (i * nat MAX_CHARS) c))"
proof -
  have n: "0 < nat MAX_CHARS" by (simp add: MAX_CHARS_def)
  obtain c where c: "c \<in> set chunks" "s \<in> set (slices (nat MAX_CHARS) c)"
    using assms by (auto simp: all_safe_chunks_slices)
  have "s \<noteq> []" using slices_nonempty [OF n c(2)] .
  moreover have "length s \<le> nat MAX_CHARS" using c(2) by (rule slices_length)
  then have "int (length s) \<le> MAX_CHARS" by (simp add: MAX_CHARS_def)
  moreover have "\<exists>i. s = take (nat MAX_CHARS) (drop (i * nat MAX_CHARS) c)"
    using c(2) by (auto simp: slices_def)
  ultimately show ?thesis using c(1) by blast
qed

lemma process_safe_chunks_world:
  "case process_safe_chunks env filename strategy ss n w of (r, w') \<Rightarrow>
     r = loop_result env filename strategy n ss \<and>
     table w' = table w \<and> txn w' = txn w \<and> closed w' = closed w \<and>
     pending w' = pending w @ inserted_rows env filename strategy n ss \<and>
     trace w' = trace w @ loop_events env filename strategy n ss \<and>
     (\<exists>ms. stdout w' = stdout w @ ms)"
proof (induction ss arbitrary: n w)
  case Nil
  then show ?case by (simp add: loop_result_def)
next
  case (Cons s ss)
  show ?case
  proof (cases "embed_content env n s")
    case (Inl e)
    then show ?thesis
      by (simp add: generate_embedding_def called_def loop_result_def step_failure_def
          call_failure_def)
  next
    case (Inr v)
    let ?r = "\<lparr>row_chunk_text = s, row_embedding = v, row_filename = filename,
               row_strategy_split = strategy\<rparr>"
    show ?thesis
    proof (cases "cursor_execute env n ?r")
      case (Some e)
      then show ?thesis using Inr
        by (simp add: generate_embedding_def insert_to_db_def called_def loop_result_def
            step_failure_def call_failure_def Let_def)
    next
      case None
      let ?w2 = "(called (Insert ?r) (called (Embed s) w))
                   \<lparr>pending := pending (called (Embed s) w) @ [?r]\<rparr>"
      show ?thesis
      proof (cases "print_result env (ProcessedChunk (n + 1))")
        case pe: (Some e)
        have "process_safe_chunks env filename strategy (s # ss) n w = (Inl e, ?w2)"
          using Inr None pe
          by (simp add: generate_embedding_def insert_to_db_def Let_def print_def)
        then show ?thesis using Inr None pe
          by (simp add: called_def loop_result_def step_failure_def call_failure_def Let_def)
      next
        case pn: None
        let ?w3 = "?w2\<lparr>stdout := stdout ?w2 @ [ProcessedChunk (n + 1)]\<rparr>"
        have step: "process_safe_chunks env filename strategy (s # ss) n w
            = process_safe_chunks env filename strategy ss (Suc n) ?w3"
          using Inr None pn
          by (simp add: generate_embedding_def insert_to_db_def Let_def print_def)
        show ?thesis
          using Cons [of "Suc n" ?w3] Inr None pn unfolding step
          by (auto simp: called_def loop_result_def step_failure_def call_failure_def Let_def
              split: prod.splits option.splits)
      qed
    qed
  qed
qed

lemma process_safe_chunks_append:
  "process_safe_chunks env filename strategy (xs @ ys) n w =
     (case process_safe_chunks env filename strategy xs n w of
        (Inl e, w1) \<Rightarrow> (Inl e, w1)
      | (Inr n1, w1) \<Rightarrow> process_safe_chunks env filename strategy ys n1 w1)"
  by (induction xs arbitrary: n w) (auto split: prod.splits sum.splits)

lemma enforce_max_length_MAX_CHARS: "\<exists>ss. enforce_max_length chunk MAX_CHARS = Inr ss"
  by (simp add: enforce_max_length_def py_range_def MAX_CHARS_def)

lemma process_chunks_flat:
  "process_chunks env filename strategy chunks n w =
     process_safe_chunks env filename strategy (all_safe_chunks chunks) n w"
proof (induction chunks arbitrary: n w)
  case Nil
  then show ?case by (simp add: all_safe_chunks_def)
next
  case (Cons c cs)
  obtain ss where ss: "enforce_max_length c MAX_CHARS = Inr ss"
    using enforce_max_length_MAX_CHARS by blast
  have a: "all_safe_chunks (c # cs) = ss @ all_safe_chunks cs"
    by (simp add: all_safe_chunks_def ss)
  show ?case
    by (simp add: a ss process_safe_chunks_append Cons split: prod.splits sum.splits)
qed

lemma embedded_append: "embedded (xs @ ys) = embedded xs @ embedded ys"
  by (induction xs rule: embedded.induct) auto

lemma first_failure_None:
  "first_failure env filename strategy n ss = None \<Longrightarrow>
     map row_chunk_text (inserted_rows env filename strategy n ss) = ss \<and>
     (\<forall>r \<in> set (inserted_rows env filename strategy n ss).
        row_filename r = filename \<and> row_strategy_split r = strategy) \<and>
     embedded (loop_events env filename strategy n ss) = ss"
  by (induction ss arbitrary: n)
     (auto simp: step_failure_def call_failure_def Let_def split: sum.splits option.splits)

lemma first_failure_Some:
  "first_failure env filename strategy n ss = Some (k, e) \<Longrightarrow>
     n \<le> k \<and> k < n + length ss \<and>
     embedded (loop_events env filename strategy n ss) = take (Suc (k - n)) ss"
proof (induction ss arbitrary: n)
  case Nil
  then show ?case by simp
next
  case (Cons s ss)
  show ?case
  proof (cases "step_failure env filename strategy n s")
    case None
    then have "first_failure env filename strategy (Suc n) ss = Some (k, e)"
      using Cons.prems by simp
    then have ih: "Suc n \<le> k" "k < Suc n + length ss"
       "embedded (loop_events env filename strategy (Suc n) ss) = take (Suc (k - Suc n)) ss"
      using Cons.IH by blast+
    have "Suc (k - n) = Suc (Suc (k - Suc n))" using ih(1) by simp
    then show ?thesis using ih None
      by (auto simp: step_failure_def call_failure_def Let_def split: sum.splits option.splits)
  next
    case (Some e')
    then show ?thesis using Cons.prems
      by (auto simp: step_failure_def call_failure_def Let_def split: sum.splits option.splits)
  qed
qed

lemma first_failure_at:
  "k < length ss \<Longrightarrow> step_failure env filename strategy (n + k) (ss ! k) = Some e \<Longrightarrow>
   (\<forall>j<k. step_failure env filename strategy (n + j) (ss ! j) = None) \<Longrightarrow>
   first_failure env filename strategy n ss = Some (n + k, e)"
proof (induction ss arbitrary: n k)
  case Nil
  then show ?case by simp
next
  case (Cons s ss)
  show ?case
  proof (cases k)
    case 0
    then show ?thesis using Cons.prems by simp
  next
    case (Suc k')
    have 0: "step_failure env filename strategy n s = None"
      using Cons.prems(3) Suc by (metis add.right_neutral nth_Cons_0 zero_less_Suc)
    have "first_failure env filename strategy (Suc n) ss = Some (Suc n + k', e)"
    proof (rule Cons.IH)
      show "k' < length ss" using Cons.prems(1) Suc by simp
      show "step_failure env filename strategy (Suc n + k') (ss ! k') = Some e"
        using Cons.prems(2) Suc by simp
      show "\<forall>j<k'. step_failure env filename strategy (Suc n + j) (ss ! j) = None"
      proof (intro allI impI)
        fix j assume "j < k'"
        then have "Suc j < k" using Suc by simp
        then have "step_failure env filename strategy (n + Suc j) ((s # ss) ! Suc j) = None"
          using Cons.prems(3) by blast
        then show "step_failure env filename strategy (Suc n + j) (ss ! j) = None" by simp
      qed
    qed
    then show ?thesis using 0 Suc by simp
  qed
qed

lemma first_failure_none_iff:
  "first_failure env filename strategy n ss = None \<longleftrightarrow>
     (\<forall>j<length ss. step_failure env filename strategy (n + j) (ss ! j) = None)"
proof (induction ss arbitrary: n)
  case Nil
  then show ?case by simp
next
  case (Cons s ss)
  have "(\<forall>j<length (s # ss). step_failure env filename strategy (n + j) ((s # ss) ! j) = None)
     \<longleftrightarrow> step_failure env filename strategy n s = None \<and>
       (\<forall>j<length ss. step_failure env filename strategy (Suc n + j) (ss ! j) = None)"
    by (auto simp: less_Suc_eq_0_disj)
  then show ?case using Cons by (auto split: option.splits)
qed

section \<open>The transaction and the whole run\<close>

lemma try_except_finally_world:
  assumes "txn w = Open"
  shows "case try_except_finally env filename strategy chunks w of (r, w') \<Rightarrow>
     closed w' \<and> pending w' = [] \<and>
     (case first_failure env filename strategy 0 (all_safe_chunks chunks) of
        Some (k, e) \<Rightarrow>
          r = Inl e \<and> table w' = table w \<and> txn w' = RolledBack \<and>
          trace w' = trace w @ loop_events env filename strategy 0 (all_safe_chunks chunks)
                       @ (if is_Exception e then [Rollback, Close] else [Close])
      | None \<Rightarrow>
          (case conn_commit_result env of
             Some e \<Rightarrow>
               r = Inl e \<and> table w' = table w \<and> txn w' = RolledBack \<and>
               trace w' = trace w @ loop_events env filename strategy 0 (all_safe_chunks chunks)
                            @ [Commit] @ (if is_Exception e then [Rollback, Close] else [Close])
           | None \<Rightarrow>
               txn w' = Committed \<and>
               table w' = table w @ pending w
                            @ inserted_rows env filename strategy 0 (all_safe_chunks chunks) \<and>
               (case print_result env (Stored (length (all_safe_chunks chunks))) of
                  Some e \<Rightarrow>
                    r = Inl e \<and>
                    trace w' = trace w
                      @ loop_events env filename strategy 0 (all_safe_chunks chunks)
                      @ [Commit] @ (if is_Exception e then [Rollback, Close] else [Close])
                | None \<Rightarrow>
                    r = Inr PyNone \<and>
                    trace w' = trace w
                      @ loop_events env filename strategy 0 (all_safe_chunks chunks)
                      @ [Commit, Close] \<and>
                    (\<exists>ms. stdout w' =
                       stdout w @ ms @ [Stored (length (all_safe_chunks chunks))]))))"
proof -
  let ?ss = "all_safe_chunks chunks"
  obtain r1 w1 where p: "process_safe_chunks env filename strategy ?ss 0 w = (r1, w1)"
    by (cases "process_safe_chunks env filename strategy ?ss 0 w")
  have f: "r1 = loop_result env filename strategy 0 ?ss" "table w1 = table w" "txn w1 = Open"
    "closed w1 = closed w" "pending w1 = pending w @ inserted_rows env filename strategy 0 ?ss"
    "trace w1 = trace w @ loop_events env filename strategy 0 ?ss"
    "\<exists>ms. stdout w1 = stdout w @ ms"
    using process_safe_chunks_world [where env=env and filename=filename and strategy=strategy
        and ss="?ss" and n=0 and w=w] p assms by auto
  obtain ms where ms: "stdout w1 = stdout w @ ms" using f(7) by blast
  show ?thesis
  proof (cases "first_failure env filename strategy 0 ?ss")
    case None
    then have r1: "r1 = Inr (length ?ss)" using f(1) by (simp add: loop_result_def)
    show ?thesis
      using None r1 p f(2-6) ms
      by (auto simp: try_except_finally_def try_body_def process_chunks_flat conn_commit_def
          conn_close_def conn_rollback_def called_def print_def split: option.splits)
  next
    case (Some ke)
    obtain k e where ke: "ke = (k, e)" by (cases ke)
    then have r1: "r1 = Inl e" using f(1) Some by (simp add: loop_result_def)
    show ?thesis
      using Some ke r1 p f(2-6)
      by (auto simp: try_except_finally_def try_body_def process_chunks_flat
          conn_close_def conn_rollback_def called_def)
  qed
qed

lemma extract_text_snd:
  "snd (extract_text env file_path w) = w\<lparr>trace := trace w @ extract_events file_path\<rparr>"
  by (auto simp: extract_text_def extract_text_from_pdf_def extract_text_from_docx_def
      extract_events_def called_def split: sum.splits)

lemma extract_text_fst: "fst (extract_text env file_path w) = fst (extract_text env file_path w0)"
  by (auto simp: extract_text_def extract_text_from_pdf_def extract_text_from_docx_def
      split: sum.splits)


lemma extract_text_Inr_supported:
  "fst (extract_text env file_path w) = Inr text \<Longrightarrow>
     extract_events file_path = [ReadPdf file_path] \<or> extract_events file_path = [ReadDocx file_path]"
  by (auto simp: extract_text_def extract_events_def split: if_splits)

lemma embedded_extract_events: "embedded (extract_events file_path) = []"
  by (simp add: extract_events_def)

lemma connected_fields:
  "txn (connected file_path strategy n w) = Open"
  "table (connected file_path strategy n w) = table w"
  "pending (connected file_path strategy n w) = []"
  "stdout (connected file_path strategy n w) = stdout w @ [Processing (path_name file_path), Created n strategy]"
  "embedded (trace (connected file_path strategy n w)) = embedded (trace w)"
  by (simp_all add: connected_def embedded_append embedded_extract_events)

lemma print_None: "print_result env m = None \<Longrightarrow> print env m w = (Inr (), w\<lparr>stdout := stdout w @ [m]\<rparr>)"
  by (simp add: print_def)

lemma print_Some: "print_result env m = Some e \<Longrightarrow> print env m w = (Inl e, w)"
  by (simp add: print_def)

lemma extract_text_eq:
  "fst (extract_text env file_path w0) = Inr text \<Longrightarrow>
     extract_text env file_path w = (Inr text, w\<lparr>trace := trace w @ extract_events file_path\<rparr>)"
proof -
  assume "fst (extract_text env file_path w0) = Inr text"
  then have "fst (extract_text env file_path w) = Inr text"
    using extract_text_fst by metis
  then show ?thesis
    using extract_text_snd [of env file_path w] by (metis prod.collapse)
qed

lemma process_document_first_print_fails:
  assumes "os_path_exists env file_path"
    and "print_result env (Processing (path_name file_path)) = Some e"
  shows "process_document env file_path strategy w =
     Some (Inl e, called (PathExists file_path) w)"
  using assms by (simp add: process_document_def Let_def print_Some)

lemma process_document_second_print_fails:
  assumes "os_path_exists env file_path"
    and "print_result env (Processing (path_name file_path)) = None"
    and "fst (extract_text env file_path w) = Inr text"
    and "chunk_text text strategy = Some (Inr raw_chunks)"
    and "print_result env (Created (length raw_chunks) strategy) = Some e"
  shows "process_document env file_path strategy w =
     Some (Inl e, w\<lparr>trace := trace w @ [PathExists file_path] @ extract_events file_path,
                    stdout := stdout w @ [Processing (path_name file_path)]\<rparr>)"
proof -
  let ?w0 = "called (PathExists file_path) w"
  let ?w1 = "?w0\<lparr>stdout := stdout ?w0 @ [Processing (path_name file_path)]\<rparr>"
  have e: "extract_text env file_path ?w1
      = (Inr text, ?w1\<lparr>trace := trace ?w1 @ extract_events file_path\<rparr>)"
    using assms(3) by (rule extract_text_eq)
  have "process_document env file_path strategy w =
      Some (Inl e, ?w1\<lparr>trace := trace ?w1 @ extract_events file_path\<rparr>)"
    using assms(1,4)
    by (simp add: process_document_def Let_def print_None [OF assms(2)] e print_Some [OF assms(5)])
  then show ?thesis by (simp add: called_def)
qed

lemma process_document_reach:
  assumes "os_path_exists env file_path"
    and "print_result env (Processing (path_name file_path)) = None"
    and "fst (extract_text env file_path w) = Inr text"
    and "chunk_text text strategy = Some (Inr raw_chunks)"
    and "print_result env (Created (length raw_chunks) strategy) = None"
    and "psycopg2_connect env = None"
  shows "process_document env file_path strategy w =
     Some (try_except_finally env (path_name file_path) strategy (map clean_chunk raw_chunks)
             (connected file_path strategy (length raw_chunks) w))"
proof -
  let ?w0 = "called (PathExists file_path) w"
  let ?w1 = "?w0\<lparr>stdout := stdout ?w0 @ [Processing (path_name file_path)]\<rparr>"
  let ?w2 = "?w1\<lparr>trace := trace ?w1 @ extract_events file_path\<rparr>"
  let ?w3 = "?w2\<lparr>stdout := stdout ?w2 @ [Created (length raw_chunks) strategy]\<rparr>"
  have e: "extract_text env file_path ?w1 = (Inr text, ?w2)"
    using assms(3) by (rule extract_text_eq)
  have "process_document env file_path strategy w =
      Some (try_except_finally env (path_name file_path) strategy (map clean_chunk raw_chunks)
        (snd (get_db_connection env ?w3)))"
    using assms(1,4,6)
    by (simp add: process_document_def Let_def print_None [OF assms(2)] e
        print_None [OF assms(5)] get_db_connection_def)
  moreover have "snd (get_db_connection env ?w3)
      = connected file_path strategy (length raw_chunks) w"
    using assms(6) by (simp add: get_db_connection_def connected_def called_def)
  ultimately show ?thesis by simp
qed

lemma process_document_success:
  assumes "process_document env file_path strategy w = Some (Inr v, w')"
  shows "os_path_exists env file_path \<and> psycopg2_connect env = None \<and>
     print_result env (Processing (path_name file_path)) = None \<and>
     (\<exists>text raw_chunks. fst (extract_text env file_path w) = Inr text \<and>
        chunk_text text strategy = Some (Inr raw_chunks) \<and>
        print_result env (Created (length raw_chunks) strategy) = None)"
proof -
  let ?w0 = "called (PathExists file_path) w"
  let ?w1 = "?w0\<lparr>stdout := stdout ?w0 @ [Processing (path_name file_path)]\<rparr>"
  have 1: "os_path_exists env file_path"
    using assms by (auto simp: process_document_def split: if_splits)
  have 2: "print_result env (Processing (path_name file_path)) = None"
    using assms 1
    by (cases "print_result env (Processing (path_name file_path))")
       (auto simp: process_document_def Let_def print_Some)
  note p1 = print_None [OF 2]
  obtain r2 w2 where e: "extract_text env file_path ?w1 = (r2, w2)"
    by (cases "extract_text env file_path ?w1")
  obtain doc where t: "r2 = Inr doc"
    using assms 1 e by (cases r2) (auto simp: process_document_def Let_def p1)
  have f: "fst (extract_text env file_path w) = Inr doc"
    using e t extract_text_fst [of env file_path w ?w1] by simp
  obtain raw_chunks where c: "chunk_text doc strategy = Some (Inr raw_chunks)"
    using assms 1 e t
    by (auto simp: process_document_def Let_def p1 split: option.splits sum.splits)
  have 3: "print_result env (Created (length raw_chunks) strategy) = None"
    using assms 1 e t c
    by (cases "print_result env (Created (length raw_chunks) strategy)")
       (auto simp: process_document_def Let_def p1 print_Some)
  have "psycopg2_connect env = None"
    using assms 1 e t c
    by (auto simp: process_document_def Let_def p1 print_None [OF 3] get_db_connection_def
        split: option.splits)
  then show ?thesis using 1 2 3 f c by blast
qed

lemma process_document_committed:
  assumes "os_path_exists env file_path"
    and "print_result env (Processing (path_name file_path)) = None"
    and "fst (extract_text env file_path w) = Inr text"
    and "chunk_text text strategy = Some (Inr raw_chunks)"
    and "print_result env (Created (length raw_chunks) strategy) = None"
    and "psycopg2_connect env = None"
    and "first_failure env (path_name file_path) strategy 0
           (all_safe_chunks (map clean_chunk raw_chunks)) = None"
    and "conn_commit_result env = None"
    and "print_result env (Stored (length (all_safe_chunks (map clean_chunk raw_chunks)))) = None"
  shows "\<exists>w'. process_document env file_path strategy w = Some (Inr PyNone, w') \<and>
      txn w' = Committed \<and> closed w' \<and> pending w' = [] \<and>
      table w' = table w @ inserted_rows env (path_name file_path) strategy 0
                             (all_safe_chunks (map clean_chunk raw_chunks)) \<and>
      last (stdout w') = Stored (length (all_safe_chunks (map clean_chunk raw_chunks))) \<and>
      (\<exists>evs. trace w' = evs @ [Commit, Close])"
proof -
  let ?fn = "path_name file_path"
  let ?ss = "all_safe_chunks (map clean_chunk raw_chunks)"
  let ?w4 = "connected file_path strategy (length raw_chunks) w"
  obtain r w' where t: "try_except_finally env ?fn strategy (map clean_chunk raw_chunks) ?w4 = (r, w')"
    by (cases "try_except_finally env ?fn strategy (map clean_chunk raw_chunks) ?w4")
  have pd: "process_document env file_path strategy w = Some (r, w')"
    using process_document_reach [OF assms(1-6)] t by simp
  note tw = try_except_finally_world [where w="?w4" and env=env and filename="?fn"
      and strategy=strategy and chunks="map clean_chunk raw_chunks", unfolded t,
      simplified connected_fields]
  have "r = Inr PyNone" "txn w' = Committed" "closed w'" "pending w' = []"
     "table w' = table w @ inserted_rows env ?fn strategy 0 ?ss"
     "\<exists>ms. stdout w' = (stdout w @ [Processing ?fn, Created (length raw_chunks) strategy])
                           @ ms @ [Stored (length ?ss)]"
     "\<exists>evs. trace w' = evs @ [Commit, Close]"
    using tw assms(7,8,9) by auto
  then show ?thesis using pd by (intro exI [of _ w']) auto
qed

lemma process_document_success_calls:
  assumes "process_document env file_path strategy w = Some (Inr v, w')"
    and "fst (extract_text env file_path w) = Inr text"
    and "chunk_text text strategy = Some (Inr raw_chunks)"
  shows "first_failure env (path_name file_path) strategy 0
           (all_safe_chunks (map clean_chunk raw_chunks)) = None \<and>
         conn_commit_result env = None \<and>
         print_result env (Stored (length (all_safe_chunks (map clean_chunk raw_chunks)))) = None \<and>
         print_result env (Processing (path_name file_path)) = None \<and>
         print_result env (Created (length raw_chunks) strategy) = None"
proof -
  let ?fn = "path_name file_path"
  let ?w4 = "connected file_path strategy (length raw_chunks) w"
  obtain doc raws where e: "os_path_exists env file_path" "psycopg2_connect env = None"
      "print_result env (Processing (path_name file_path)) = None"
      "fst (extract_text env file_path w) = Inr doc"
      "chunk_text doc strategy = Some (Inr raws)"
      "print_result env (Created (length raws) strategy) = None"
    using process_document_success [OF assms(1)] by blast
  have same: "doc = text" "raws = raw_chunks" using e(4,5) assms(2,3) by auto
  note p = e(6) [unfolded same]
  have t: "try_except_finally env ?fn strategy (map clean_chunk raw_chunks) ?w4 = (Inr v, w')"
    using process_document_reach [OF e(1) e(3) assms(2,3) p e(2)] assms(1) by simp
  note tw = try_except_finally_world [where w="?w4" and env=env and filename="?fn"
      and strategy=strategy and chunks="map clean_chunk raw_chunks", unfolded t,
      simplified connected_fields]
  show ?thesis using tw e(3) p by (auto split: option.splits)
qed

section \<open>Failures before the transaction\<close>



text \<open>
  Claim C7 as stated fails.  With the unrecognised strategy \<^verbatim>\<open>semantic\<close>, a run on an
  existing PDF raises \<open>UnsupportedStrategy\<close> only after the PDF reader has been called,
  and a run on an existing \<^verbatim>\<open>.txt\<close> file fails with \<open>UnsupportedFormat\<close> instead.
\<close>

theorem unsupported_strategy_counterexample:
  "process_document good_env ''report.pdf'' ''semantic'' empty_world =
     Some (Inl (UnsupportedStrategy ''semantic''),
       \<lparr>table = [], pending = [], txn = NotConnected, closed = False,
        trace = [PathExists ''report.pdf'', ReadPdf ''report.pdf''],
        stdout = [Processing ''report.pdf'']\<rparr>) \<and>
   process_document good_env ''notes.txt'' ''semantic'' empty_world =
     Some (Inl (UnsupportedFormat ''.txt''),
       \<lparr>table = [], pending = [], txn = NotConnected, closed = False,
        trace = [PathExists ''notes.txt''],
        stdout = [Processing ''notes.txt'']\<rparr>)"
  by code_simp

text \<open>
  Claim C7, as the code has it.  For every strategy name that is not one of
  \<^verbatim>\<open>fixed\<close>, \<^verbatim>\<open>sentence\<close>, \<^verbatim>\<open>paragraph\<close>, a run on an existing document whose text
  extraction succeeds (and whose first line, printed before the extraction, reaches the
  standard output) fails with \<open>UnsupportedStrategy\<close>.  The name is checked by
  \<open>chunk_text\<close>, after the extraction has been invoked and before a database connection
  is opened or an embedding requested.
\<close>

theorem unsupported_strategy_after_extraction:
  assumes "strategy \<noteq> ''fixed''" and "strategy \<noteq> ''sentence''" and "strategy \<noteq> ''paragraph''"
    and "os_path_exists env file_path"
    and "fst (extract_text env file_path w) = Inr text"
    and "print_result env (Processing (path_name file_path)) = None"
  shows "\<exists>w'. process_document env file_path strategy w =
            Some (Inl (UnsupportedStrategy strategy), w') \<and>
          (trace w' = trace w @ [PathExists file_path, ReadPdf file_path] \<or>
           trace w' = trace w @ [PathExists file_path, ReadDocx file_path]) \<and>
          table w' = table w \<and> pending w' = pending w \<and> txn w' = txn w \<and> closed w' = closed w"
proof -
  let ?w0 = "called (PathExists file_path) w"
  let ?w1 = "?w0\<lparr>stdout := stdout ?w0 @ [Processing (path_name file_path)]\<rparr>"
  have e: "extract_text env file_path ?w1
      = (Inr text, ?w1\<lparr>trace := trace ?w1 @ extract_events file_path\<rparr>)"
    using assms(5) by (rule extract_text_eq)
  have c: "chunk_text text strategy = Some (Inl (UnsupportedStrategy strategy))"
    using assms(1-3) by (simp add: chunk_text_def)
  have "process_document env file_path strategy w =
      Some (Inl (UnsupportedStrategy strategy),
            ?w1\<lparr>trace := trace ?w1 @ extract_events file_path\<rparr>)"
    using assms(4) by (simp add: process_document_def Let_def print_None [OF assms(6)] e c)
  then show ?thesis
    using extract_text_Inr_supported [OF assms(5)]
    by (auto simp: called_def)
qed

theorem unsupported_strategy_after_extraction_witness:
  "''semantic'' \<noteq> ''fixed'' \<and> ''semantic'' \<noteq> ''sentence'' \<and> ''semantic'' \<noteq> ''paragraph'' \<and>
   os_path_exists good_env ''report.pdf'' \<and>
   fst (extract_text good_env ''report.pdf'' empty_world) = Inr ''Hello world. Bye!\<newline>'' \<and>
   print_result good_env (Processing (path_name ''report.pdf'')) = None \<and>
   (\<exists>w'. process_document good_env ''report.pdf'' ''semantic'' empty_world =
            Some (Inl (UnsupportedStrategy ''semantic''), w') \<and>
          (trace w' = [PathExists ''report.pdf'', ReadPdf ''report.pdf''] \<or>
           trace w' = [PathExists ''report.pdf'', ReadDocx ''report.pdf'']) \<and>
          table w' = [] \<and> txn w' = NotConnected \<and> closed w' = False)"
proof -
  have s: "''semantic'' \<noteq> ''fixed''" "''semantic'' \<noteq> ''sentence''" "''semantic'' \<noteq> ''paragraph''"
    by simp_all
  have h1: "os_path_exists good_env ''report.pdf''" by code_simp
  have h2: "fst (extract_text good_env ''report.pdf'' empty_world) = Inr ''Hello world. Bye!\<newline>''"
    by code_simp
  have h3: "print_result good_env (Processing (path_name ''report.pdf'')) = None" by code_simp
  have w: "trace empty_world = []" "table empty_world = []" "pending empty_world = []"
    "txn empty_world = NotConnected" "closed empty_world = False" by code_simp+
  show ?thesis
    using unsupported_strategy_after_extraction [OF s h1 h2 h3] h1 h2 h3 unfolding w by auto
qed

section \<open>Failures inside the transaction\<close>

lemma call_failure_step_failure:
  "call_failure env filename strategy n c = Some e \<Longrightarrow>
     step_failure env filename strategy n c = Some e"
  by (simp add: step_failure_def)

text \<open>
  Claim C1.  Take a run that reaches the \<^verbatim>\<open>try\<close> statement: the document exists, its
  text is extracted, the strategy is recognised, the two lines before the connection are
  printed and the connection is opened.  Any call inside the \<^verbatim>\<open>try\<close> may raise: an
  embedding call, an insert, the commit, or the printing of a line.  The run returns,
  and on every exit path the connection is closed, with nothing pending, the
  transaction committed or rolled back, and the close as the last call; when the
  transaction is rolled back, the table is as before the run.  A run that ends in an
  exception has rolled back and left the table as before, unless the exception is that
  of printing the last line, which comes after the commit.  If moreover the call number
  \<open>k\<close> (an embedding call, or the insert that follows it) fails with exception \<open>e\<close>,
  every earlier turn of the loop having completed, then the run raises \<open>e\<close>, the
  transaction is rolled back, the table is as before the run, the embedding client has
  been called for the sub-chunks up to number \<open>k\<close> and for no later one, and (for an
  instance of \<^verbatim>\<open>Exception\<close>) the last two calls are the rollback and the close.
\<close>

theorem failure_rolls_back_and_releases:
  assumes "os_path_exists env file_path"
    and "print_result env (Processing (path_name file_path)) = None"
    and "fst (extract_text env file_path w) = Inr text"
    and "chunk_text text strategy = Some (Inr raw_chunks)"
    and "print_result env (Created (length raw_chunks) strategy) = None"
    and "psycopg2_connect env = None"
  shows "\<exists>r w'. process_document env file_path strategy w = Some (r, w') \<and>
      closed w' \<and> pending w' = [] \<and> (txn w' = Committed \<or> txn w' = RolledBack) \<and>
      last (trace w') = Close \<and>
      (txn w' = RolledBack \<longrightarrow> table w' = table w) \<and>
      (\<forall>e. r = Inl e \<longrightarrow>
         (table w' = table w \<and> txn w' = RolledBack) \<or>
         (txn w' = Committed \<and>
          print_result env (Stored (length (all_safe_chunks (map clean_chunk raw_chunks))))
            = Some e)) \<and>
      (\<forall>k e.
         k < length (all_safe_chunks (map clean_chunk raw_chunks)) \<and>
         call_failure env (path_name file_path) strategy k
           (all_safe_chunks (map clean_chunk raw_chunks) ! k) = Some e \<and>
         (\<forall>j<k. step_failure env (path_name file_path) strategy j
                  (all_safe_chunks (map clean_chunk raw_chunks) ! j) = None)
         \<longrightarrow>
         r = Inl e \<and> table w' = table w \<and> txn w' = RolledBack \<and>
         embedded (trace w') =
           embedded (trace w) @ take (Suc k) (all_safe_chunks (map clean_chunk raw_chunks)) \<and>
         (is_Exception e \<longrightarrow> (\<exists>evs. trace w' = evs @ [Rollback, Close])))"
proof -
  let ?fn = "path_name file_path"
  let ?ss = "all_safe_chunks (map clean_chunk raw_chunks)"
  let ?w4 = "connected file_path strategy (length raw_chunks) w"
  obtain r w' where t: "try_except_finally env ?fn strategy (map clean_chunk raw_chunks) ?w4 = (r, w')"
    by (cases "try_except_finally env ?fn strategy (map clean_chunk raw_chunks) ?w4")
  have pd: "process_document env file_path strategy w = Some (r, w')"
    using process_document_reach [OF assms] t by simp
  note tw = try_except_finally_world [where w="?w4" and env=env and filename="?fn"
      and strategy=strategy and chunks="map clean_chunk raw_chunks", unfolded t,
      simplified connected_fields]
  show ?thesis
  proof (cases "first_failure env ?fn strategy 0 ?ss")
    case None
    then have none: "\<forall>j<length ?ss. step_failure env ?fn strategy j (?ss ! j) = None"
      using first_failure_none_iff [of env ?fn strategy 0 ?ss] by simp
    have nocall: "\<And>k e. k < length ?ss \<Longrightarrow> call_failure env ?fn strategy k (?ss ! k) \<noteq> Some e"
      using none call_failure_step_failure by fastforce
    have base: "closed w'" "pending w' = []" "txn w' = Committed \<or> txn w' = RolledBack"
      "last (trace w') = Close" "txn w' = RolledBack \<longrightarrow> table w' = table w"
      "\<forall>e. r = Inl e \<longrightarrow> (table w' = table w \<and> txn w' = RolledBack) \<or>
         (txn w' = Committed \<and> print_result env (Stored (length ?ss)) = Some e)"
      using tw None by (auto split: option.splits if_splits)
    show ?thesis using pd base nocall by (intro exI [of _ r] exI [of _ w']) blast
  next
    case (Some ke)
    obtain k0 e0 where ke: "ke = (k0, e0)" by (cases ke)
    have f: "first_failure env ?fn strategy 0 ?ss = Some (k0, e0)" using Some ke by simp
    have r: "r = Inl e0" "table w' = table w" "txn w' = RolledBack" "closed w'" "pending w' = []"
      and tr: "trace w' = trace ?w4 @ loop_events env ?fn strategy 0 ?ss
                 @ (if is_Exception e0 then [Rollback, Close] else [Close])"
      using tw f by auto
    have emb: "embedded (trace w') = embedded (trace w) @ take (Suc k0) ?ss"
      using first_failure_Some [OF f] by (simp add: tr embedded_append connected_fields)
    have last: "last (trace w') = Close" by (simp add: tr)
    have rb: "is_Exception e0 \<longrightarrow> (\<exists>evs. trace w' = evs @ [Rollback, Close])"
      by (simp add: tr)
    have uniq: "\<And>k e. k < length ?ss \<Longrightarrow> call_failure env ?fn strategy k (?ss ! k) = Some e \<Longrightarrow>
        (\<forall>j<k. step_failure env ?fn strategy j (?ss ! j) = None) \<Longrightarrow> k = k0 \<and> e = e0"
    proof -
      fix k e assume "k < length ?ss" "call_failure env ?fn strategy k (?ss ! k) = Some e"
        "\<forall>j<k. step_failure env ?fn strategy j (?ss ! j) = None"
      then have "first_failure env ?fn strategy 0 ?ss = Some (0 + k, e)"
        by (intro first_failure_at) (simp_all add: call_failure_step_failure)
      then show "k = k0 \<and> e = e0" using f by simp
    qed
    show ?thesis
      using pd r emb last rb uniq by (intro exI [of _ r] exI [of _ w']) blast
  qed
qed

theorem failure_rolls_back_and_releases_witness:
  "os_path_exists failing_env ''notes.docx'' \<and>
   print_result failing_env (Processing (path_name ''notes.docx'')) = None \<and>
   fst (extract_text failing_env ''notes.docx'' empty_world)
     = Inr ''one\<newline>\<newline>two\<newline>three\<newline>'' \<and>
   chunk_text ''one\<newline>\<newline>two\<newline>three\<newline>'' ''paragraph''
     = Some (Inr [''one'', ''two'', ''three'']) \<and>
   print_result failing_env (Created (length [''one'', ''two'', ''three'']) ''paragraph'') = None \<and>
   psycopg2_connect failing_env = None \<and>
   step_failure failing_env ''notes.docx'' ''paragraph'' 0 ''one'' = None \<and>
   call_failure failing_env ''notes.docx'' ''paragraph'' 1 ''two''
     = Some (Raised True ''quota exceeded'') \<and>
   (\<exists>w'. process_document failing_env ''notes.docx'' ''paragraph'' empty_world
            = Some (Inl (Raised True ''quota exceeded''), w') \<and>
         closed w' \<and> pending w' = [] \<and> table w' = [] \<and> txn w' = RolledBack \<and>
         last (trace w') = Close \<and> embedded (trace w') = [''one'', ''two''])"
proof -
  have h1: "os_path_exists failing_env ''notes.docx''" by code_simp
  have h2: "print_result failing_env (Processing (path_name ''notes.docx'')) = None"
    by code_simp
  have h3: "fst (extract_text failing_env ''notes.docx'' empty_world)
     = Inr ''one\<newline>\<newline>two\<newline>three\<newline>''" by code_simp
  have h4: "chunk_text ''one\<newline>\<newline>two\<newline>three\<newline>'' ''paragraph''
     = Some (Inr [''one'', ''two'', ''three''])" by code_simp
  have h5: "print_result failing_env (Created (length [''one'', ''two'', ''three'']) ''paragraph'')
     = None" by code_simp
  have h6: "psycopg2_connect failing_env = None" by code_simp
  have c0: "step_failure failing_env ''notes.docx'' ''paragraph'' 0 ''one'' = None" by code_simp
  have c1: "call_failure failing_env ''notes.docx'' ''paragraph'' 1 ''two''
     = Some (Raised True ''quota exceeded'')" by code_simp
  have ss: "all_safe_chunks (map clean_chunk [''one'', ''two'', ''three''])
     = [''one'', ''two'', ''three'']"
    by code_simp
  have fn: "path_name ''notes.docx'' = ''notes.docx''" by code_simp
  have tb: "table empty_world = []" "embedded (trace empty_world) = []" by code_simp+
  obtain r w' where run:
      "process_document failing_env ''notes.docx'' ''paragraph'' empty_world = Some (r, w')"
      "closed w'" "pending w' = []" "last (trace w') = Close"
    and fail: "\<forall>k e. k < length [''one'', ''two'', ''three''] \<and>
          call_failure failing_env ''notes.docx'' ''paragraph'' k
            ([''one'', ''two'', ''three''] ! k) = Some e \<and>
          (\<forall>j<k. step_failure failing_env ''notes.docx'' ''paragraph'' j
                   ([''one'', ''two'', ''three''] ! j) = None)
        \<longrightarrow> r = Inl e \<and> table w' = [] \<and> txn w' = RolledBack \<and>
            embedded (trace w') = [] @ take (Suc k) [''one'', ''two'', ''three''] \<and>
            (is_Exception e \<longrightarrow> (\<exists>evs. trace w' = evs @ [Rollback, Close]))"
    using failure_rolls_back_and_releases [OF h1 h2 h3 h4 h5 h6] unfolding ss fn tb by blast
  have "(1::nat) < length [''one'', ''two'', ''three''] \<and>
          call_failure failing_env ''notes.docx'' ''paragraph'' 1
            ([''one'', ''two'', ''three''] ! 1) = Some (Raised True ''quota exceeded'') \<and>
          (\<forall>j<1. step_failure failing_env ''notes.docx'' ''paragraph'' j
                   ([''one'', ''two'', ''three''] ! j) = None)"
    using c0 c1 by simp
  then have "r = Inl (Raised True ''quota exceeded'') \<and> table w' = [] \<and> txn w' = RolledBack \<and>
            embedded (trace w') = [] @ take (Suc 1) [''one'', ''two'', ''three'']"
    using fail by blast
  then show ?thesis using h1 h2 h3 h4 h5 h6 c0 c1 run by simp
qed

text \<open>
  The exit path after the commit: when the standard output cannot encode the check
  mark, printing the last line raises inside the \<^verbatim>\<open>try\<close>; the rollback that answers it
  has nothing left to undo, and the exception reaches the caller with the row committed.
\<close>

lemma last_print_fails_after_commit:
  "process_document ascii_stdout_env ''report.pdf'' ''fixed'' empty_world =
     Some (Inl (Raised True ''UnicodeEncodeError''),
       \<lparr>table = [\<lparr>row_chunk_text = ''Hello world. Bye!'', row_embedding = [17],
                  row_filename = ''report.pdf'', row_strategy_split = ''fixed''\<rparr>],
        pending = [], txn = Committed, closed = True,
        trace = [PathExists ''report.pdf'', ReadPdf ''report.pdf'', Connect,
                 Embed ''Hello world. Bye!'',
                 Insert \<lparr>row_chunk_text = ''Hello world. Bye!'', row_embedding = [17],
                         row_filename = ''report.pdf'', row_strategy_split = ''fixed''\<rparr>,
                 Commit, Rollback, Close],
        stdout = [Processing ''report.pdf'', Created 1 ''fixed'', ProcessedChunk 1]\<rparr>)"
  by code_simp

section \<open>Successful runs\<close>

text \<open>
  Claim C2 as stated fails.  A run that embeds and stores its only sub-chunk, and
  prints every line, commits one row and prints the count, but the value it returns to
  its caller is \<^verbatim>\<open>None\<close>, not the count.
\<close>

theorem returns_count_counterexample:
  "process_document good_env ''report.pdf'' ''fixed'' empty_world =
     Some (Inr PyNone,
       \<lparr>table = [\<lparr>row_chunk_text = ''Hello world. Bye!'', row_embedding = [17],
                  row_filename = ''report.pdf'', row_strategy_split = ''fixed''\<rparr>],
        pending = [], txn = Committed, closed = True,
        trace = [PathExists ''report.pdf'', ReadPdf ''report.pdf'', Connect,
                 Embed ''Hello world. Bye!'',
                 Insert \<lparr>row_chunk_text = ''Hello world. Bye!'', row_embedding = [17],
                         row_filename = ''report.pdf'', row_strategy_split = ''fixed''\<rparr>,
                 Commit, Close],
        stdout = [Processing ''report.pdf'', Created 1 ''fixed'', ProcessedChunk 1, Stored 1]\<rparr>) \<and>
   PyNone \<noteq> PyInt 1"
  by code_simp

text \<open>
  Claim C2, as the code has it.  For every run that reaches the \<^verbatim>\<open>try\<close> statement, in
  which every sub-chunk is embedded and stored without error, the commit does not raise
  and every line printed reaches the standard output (the progress line of each
  sub-chunk, and the last line, which is printed after the commit), \<open>process_document\<close>
  commits the transaction: the table gains one row per sub-chunk, in order, each with
  the file name and the strategy of the run.  The total count of rows written is the
  number in the last line printed; the value returned to the caller is \<^verbatim>\<open>None\<close>.
\<close>

theorem success_commits_and_returns_None:
  assumes "os_path_exists env file_path"
    and "print_result env (Processing (path_name file_path)) = None"
    and "fst (extract_text env file_path w) = Inr text"
    and "chunk_text text strategy = Some (Inr raw_chunks)"
    and "print_result env (Created (length raw_chunks) strategy) = None"
    and "psycopg2_connect env = None"
    and "\<forall>j < length (all_safe_chunks (map clean_chunk raw_chunks)).
           call_failure env (path_name file_path) strategy j
             (all_safe_chunks (map clean_chunk raw_chunks) ! j) = None \<and>
           print_result env (ProcessedChunk (j + 1)) = None"
    and "conn_commit_result env = None"
    and "print_result env (Stored (length (all_safe_chunks (map clean_chunk raw_chunks)))) = None"
  shows "\<exists>w' rows. process_document env file_path strategy w = Some (Inr PyNone, w') \<and>
      txn w' = Committed \<and> closed w' \<and> pending w' = [] \<and>
      table w' = table w @ rows \<and>
      map row_chunk_text rows = all_safe_chunks (map clean_chunk raw_chunks) \<and>
      (\<forall>r \<in> set rows. row_filename r = path_name file_path \<and> row_strategy_split r = strategy) \<and>
      last (stdout w') = Stored (length rows) \<and>
      (\<exists>evs. trace w' = evs @ [Commit, Close])"
proof -
  let ?fn = "path_name file_path"
  let ?ss = "all_safe_chunks (map clean_chunk raw_chunks)"
  have "\<forall>j < length ?ss. step_failure env ?fn strategy (0 + j) (?ss ! j) = None"
    using assms(7) by (simp add: step_failure_def)
  then have ff: "first_failure env ?fn strategy 0 ?ss = None"
    by (simp only: first_failure_none_iff)
  obtain w' where w': "process_document env file_path strategy w = Some (Inr PyNone, w')"
      "txn w' = Committed" "closed w'" "pending w' = []"
      "table w' = table w @ inserted_rows env ?fn strategy 0 ?ss"
      "last (stdout w') = Stored (length ?ss)" "\<exists>evs. trace w' = evs @ [Commit, Close]"
    using process_document_committed [OF assms(1-6) ff assms(8,9)] by blast
  have rows: "map row_chunk_text (inserted_rows env ?fn strategy 0 ?ss) = ?ss"
     "\<forall>r \<in> set (inserted_rows env ?fn strategy 0 ?ss).
        row_filename r = ?fn \<and> row_strategy_split r = strategy"
    using first_failure_None [OF ff] by auto
  have len: "length (inserted_rows env ?fn strategy 0 ?ss) = length ?ss"
    using rows(1) by (metis length_map)
  show ?thesis
    using w' rows len
    by (intro exI [of _ w'] exI [of _ "inserted_rows env ?fn strategy 0 ?ss"]) simp
qed

theorem success_commits_and_returns_None_witness:
  "os_path_exists good_env ''notes.docx'' \<and>
   print_result good_env (Processing (path_name ''notes.docx'')) = None \<and>
   fst (extract_text good_env ''notes.docx'' empty_world)
     = Inr ''one\<newline>\<newline>two\<newline>three\<newline>'' \<and>
   chunk_text ''one\<newline>\<newline>two\<newline>three\<newline>'' ''paragraph''
     = Some (Inr [''one'', ''two'', ''three'']) \<and>
   print_result good_env (Created (length [''one'', ''two'', ''three'']) ''paragraph'') = None \<and>
   psycopg2_connect good_env = None \<and> conn_commit_result good_env = None \<and>
   print_result good_env (Stored 3) = None \<and>
   (\<exists>w' rows. process_document good_env ''notes.docx'' ''paragraph'' empty_world
            = Some (Inr PyNone, w') \<and>
         txn w' = Committed \<and> closed w' \<and> table w' = rows \<and>
         map row_chunk_text rows = [''one'', ''two'', ''three''] \<and>
         last (stdout w') = Stored 3)"
proof -
  have h1: "os_path_exists good_env ''notes.docx''" by code_simp
  have h2: "print_result good_env (Processing (path_name ''notes.docx'')) = None" by code_simp
  have h3: "fst (extract_text good_env ''notes.docx'' empty_world)
     = Inr ''one\<newline>\<newline>two\<newline>three\<newline>''" by code_simp
  have h4: "chunk_text ''one\<newline>\<newline>two\<newline>three\<newline>'' ''paragraph''
     = Some (Inr [''one'', ''two'', ''three''])" by code_simp
  have h5: "print_result good_env (Created (length [''one'', ''two'', ''three'']) ''paragraph'')
     = None" by code_simp
  have h6: "psycopg2_connect good_env = None" by code_simp
  have h8: "conn_commit_result good_env = None" by code_simp
  have ss: "all_safe_chunks (map clean_chunk [''one'', ''two'', ''three''])
     = [''one'', ''two'', ''three'']"
    by code_simp
  have h7: "\<forall>j < length (all_safe_chunks (map clean_chunk [''one'', ''two'', ''three''])).
           call_failure good_env (path_name ''notes.docx'') ''paragraph'' j
             (all_safe_chunks (map clean_chunk [''one'', ''two'', ''three'']) ! j) = None \<and>
           print_result good_env (ProcessedChunk (j + 1)) = None"
    by (simp add: call_failure_def good_env_def)
  have p3: "print_result good_env (Stored 3) = None" by code_simp
  have h9: "print_result good_env
      (Stored (length (all_safe_chunks (map clean_chunk [''one'', ''two'', ''three''])))) = None"
    by (simp add: good_env_def)
  have tb: "table empty_world = []" by code_simp
  show ?thesis
    using success_commits_and_returns_None [OF h1 h2 h3 h4 h5 h6 h7 h8 h9] h1 h2 h3 h4 h5 h6 h8 p3
    unfolding ss tb by (auto simp del: last.simps)
qed

section \<open>What is embedded and stored\<close>

lemma long_blank_paragraph_facts:
  "CHR 0x0A \<notin> set long_blank_paragraph"
  "\<forall>c \<in> set long_blank_paragraph. \<not> is_blank c"
  "\<forall>c \<in> set long_blank_paragraph. \<not> is_newline c"
  "long_blank_paragraph \<noteq> []"
  "hd long_blank_paragraph = CHR ''a''"
  "last long_blank_paragraph = CHR ''b''"
  "length long_blank_paragraph = 12001"
  by (auto simp: long_blank_paragraph_def is_blank_def is_newline_def)

lemma not_isspace_ab: "\<not> isspace (CHR ''a'')" "\<not> isspace (CHR ''b'')"
  by (simp_all add: isspace_def)

lemma clean_long_blank_paragraph: "clean_chunk long_blank_paragraph = long_blank_paragraph"
  by (simp add: clean_chunk_def sub_runs_none long_blank_paragraph_facts strip_id not_isspace_ab)

lemma slices_long_blank_paragraph:
  "slices 6000 long_blank_paragraph =
     [CHR ''a'' # replicate 5999 (CHR 0x0D), replicate 6000 (CHR 0x0D), ''b'']"
proof -
  have u: "[0..<3] = [0, 1, 2]" by code_simp
  have "(length long_blank_paragraph + 6000 - 1) div 6000 = 3"
    by (simp add: long_blank_paragraph_facts)
  then have "slices 6000 long_blank_paragraph
      = map (\<lambda>k. take 6000 (drop (k * 6000) long_blank_paragraph)) [0, 1, 2]"
    by (simp only: slices_def u)
  also have "\<dots> = [CHR ''a'' # replicate 5999 (CHR 0x0D), replicate 6000 (CHR 0x0D), ''b'']"
    by (simp add: long_blank_paragraph_def)
  finally show ?thesis .
qed

text \<open>
  Claim C6 as stated fails for the stored text.  The page of \<open>blank_env\<close> is one
  paragraph, which the normalizer leaves as it is; the length enforcer cuts it into
  three slices, and the second row stored has a \<open>chunk_text\<close> of 6000 carriage returns,
  which is whitespace only.
\<close>

theorem stored_chunk_blank_counterexample:
  "fst (the (process_document blank_env ''scan.pdf'' ''paragraph'' empty_world)) = Inr PyNone \<and>
   map row_chunk_text
     (table (snd (the (process_document blank_env ''scan.pdf'' ''paragraph'' empty_world))))
     = [CHR ''a'' # replicate 5999 (CHR 0x0D), replicate 6000 (CHR 0x0D), ''b''] \<and>
   strip (replicate 6000 (CHR 0x0D)) = []"
proof -
  let ?X = "long_blank_paragraph"
  let ?ss = "[CHR ''a'' # replicate 5999 (CHR 0x0D), replicate 6000 (CHR 0x0D), ''b'']"
  have ext: "file_ext ''scan.pdf'' = ''.pdf''" by code_simp
  have fn: "path_name ''scan.pdf'' = ''scan.pdf''" by code_simp
  have h1: "os_path_exists blank_env ''scan.pdf''" by (simp add: blank_env_def good_env_def)
  have h2: "fst (extract_text blank_env ''scan.pdf'' empty_world) = Inr (?X @ [CHR 0x0A])"
    by (simp add: extract_text_def ext extract_text_from_pdf_def blank_env_def good_env_def
        long_blank_paragraph_facts)
  have sx: "strip ?X \<noteq> []"
    using not_isspace_ab(1) by (auto simp: strip_Nil_iff long_blank_paragraph_def)
  have "str_split (CHR 0x0A) [] (?X @ [CHR 0x0A]) = [?X, []]"
    using str_split_no_sep [OF long_blank_paragraph_facts(1), of "[]" "[]"] by simp
  then have h3: "chunk_text (?X @ [CHR 0x0A]) ''paragraph'' = Some (Inr [?X])"
    using sx by (simp add: chunk_text_def split_text_paragraph_def strip_def)
  have h4: "psycopg2_connect blank_env = None" "conn_commit_result blank_env = None"
    by (simp_all add: blank_env_def good_env_def)
  have pr: "\<And>m. print_result blank_env m = None"
    by (simp add: blank_env_def good_env_def)
  have ss: "all_safe_chunks (map clean_chunk [?X]) = ?ss"
    by (simp add: clean_long_blank_paragraph all_safe_chunks_slices MAX_CHARS_def
        slices_long_blank_paragraph)
  have "\<forall>j<length ?ss. step_failure blank_env ''scan.pdf'' ''paragraph'' (0 + j) (?ss ! j) = None"
    by (simp add: step_failure_def call_failure_def blank_env_def good_env_def)
  then have ff: "first_failure blank_env (path_name ''scan.pdf'') ''paragraph'' 0
      (all_safe_chunks (map clean_chunk [?X])) = None"
    unfolding ss fn by (simp only: first_failure_none_iff)
  obtain w' where w': "process_document blank_env ''scan.pdf'' ''paragraph'' empty_world
        = Some (Inr PyNone, w')"
     "table w' = table empty_world @ inserted_rows blank_env (path_name ''scan.pdf'') ''paragraph'' 0
          (all_safe_chunks (map clean_chunk [?X]))"
    using process_document_committed [OF h1 pr h2 h3 pr h4(1) ff h4(2) pr] by blast
  have "map row_chunk_text (table w') = ?ss"
    using first_failure_None [OF ff] w'(2) ss by (simp add: empty_world_def)
  moreover have "strip (replicate 6000 (CHR 0x0D)) = []"
    by (simp add: strip_Nil_iff isspace_literals)
  ultimately show ?thesis using w'(1) by simp
qed

text \<open>
  Claim C6, as the code has it.  For every run on an existing document whose text is
  extracted, with a recognised strategy and a connection that opens: every chunk
  that the loops receive is non-empty and not whitespace-only after normalization (a
  candidate chunk normalizes to empty exactly when its \<^verbatim>\<open>strip()\<close> is empty, which is
  when the strategy drops it); every sub-chunk is a non-empty slice, of at most
  \<open>MAX_CHARS\<close> characters, of such a chunk, and is the chunk itself when the chunk has
  at most \<open>MAX_CHARS\<close> characters; the texts embedded are the first sub-chunks, in
  order (none, when a line printed before the loops raises), and every \<open>chunk_text\<close>
  stored is one of the sub-chunks.
\<close>

theorem loop_chunks_not_blank:
  assumes "os_path_exists env file_path"
    and "fst (extract_text env file_path w) = Inr text"
    and "chunk_text text strategy = Some (Inr raw_chunks)"
    and "psycopg2_connect env = None"
  shows "(\<forall>c \<in> set (map clean_chunk raw_chunks). c \<noteq> [] \<and> strip c \<noteq> []) \<and>
     (\<forall>c. clean_chunk c = [] \<longleftrightarrow> strip c = []) \<and>
     (\<forall>s \<in> set (all_safe_chunks (map clean_chunk raw_chunks)).
        s \<noteq> [] \<and> int (length s) \<le> MAX_CHARS \<and>
        (\<exists>c \<in> set raw_chunks. \<exists>i.
           s = take (nat MAX_CHARS) (drop (i * nat MAX_CHARS) (clean_chunk c)))) \<and>
     (\<forall>c \<in> set raw_chunks. int (length (clean_chunk c)) \<le> MAX_CHARS \<longrightarrow>
        enforce_max_length (clean_chunk c) MAX_CHARS = Inr [clean_chunk c]) \<and>
     (\<exists>r w' rows m. process_document env file_path strategy w = Some (r, w') \<and>
        embedded (trace w') = embedded (trace w)
           @ take m (all_safe_chunks (map clean_chunk raw_chunks)) \<and>
        table w' = table w @ rows \<and>
        set (map row_chunk_text rows) \<subseteq> set (all_safe_chunks (map clean_chunk raw_chunks)))"
proof -
  let ?fn = "path_name file_path"
  let ?ss = "all_safe_chunks (map clean_chunk raw_chunks)"
  let ?w4 = "connected file_path strategy (length raw_chunks) w"
  have nb: "\<forall>c \<in> set raw_chunks. strip c \<noteq> []" using assms(3) by (rule chunk_text_nonblank)
  have 1: "\<forall>c \<in> set (map clean_chunk raw_chunks). c \<noteq> [] \<and> strip c \<noteq> []"
    using nb by (simp add: clean_chunk_Nil_iff strip_clean_chunk)
  have 2: "\<forall>c. clean_chunk c = [] \<longleftrightarrow> strip c = []" by (simp add: clean_chunk_Nil_iff)
  have 3: "\<forall>s \<in> set ?ss. s \<noteq> [] \<and> int (length s) \<le> MAX_CHARS \<and>
        (\<exists>c \<in> set raw_chunks. \<exists>i.
           s = take (nat MAX_CHARS) (drop (i * nat MAX_CHARS) (clean_chunk c)))"
    using in_all_safe_chunks [of _ "map clean_chunk raw_chunks"] by fastforce
  have 4: "\<forall>c \<in> set raw_chunks. int (length (clean_chunk c)) \<le> MAX_CHARS \<longrightarrow>
        enforce_max_length (clean_chunk c) MAX_CHARS = Inr [clean_chunk c]"
    using nb by (simp add: enforce_max_length_single clean_chunk_Nil_iff)
  have 5: "\<exists>r w' rows m. process_document env file_path strategy w = Some (r, w') \<and>
        embedded (trace w') = embedded (trace w) @ take m ?ss \<and>
        table w' = table w @ rows \<and> set (map row_chunk_text rows) \<subseteq> set ?ss"
  proof (cases "print_result env (Processing ?fn)")
    case (Some e)
    let ?w' = "called (PathExists file_path) w"
    have "process_document env file_path strategy w = Some (Inl e, ?w')"
      using assms(1) Some by (rule process_document_first_print_fails)
    moreover have "embedded (trace ?w') = embedded (trace w) @ take 0 ?ss"
      by (simp add: called_def embedded_append)
    moreover have "table ?w' = table w @ []" by (simp add: called_def)
    ultimately show ?thesis by (metis empty_subsetI list.simps(8) set_empty2)
  next
    case p1: None
    show ?thesis
    proof (cases "print_result env (Created (length raw_chunks) strategy)")
      case (Some e)
      let ?w' = "w\<lparr>trace := trace w @ [PathExists file_path] @ extract_events file_path,
                    stdout := stdout w @ [Processing ?fn]\<rparr>"
      have "process_document env file_path strategy w = Some (Inl e, ?w')"
        using assms(1) p1 assms(2,3) Some by (rule process_document_second_print_fails)
      moreover have "embedded (trace ?w') = embedded (trace w) @ take 0 ?ss"
        by (simp add: embedded_append embedded_extract_events)
      moreover have "table ?w' = table w @ []" by simp
      ultimately show ?thesis by (metis empty_subsetI list.simps(8) set_empty2)
    next
      case p2: None
      obtain r w' where t:
          "try_except_finally env ?fn strategy (map clean_chunk raw_chunks) ?w4 = (r, w')"
        by (cases "try_except_finally env ?fn strategy (map clean_chunk raw_chunks) ?w4")
      have pd: "process_document env file_path strategy w = Some (r, w')"
        using process_document_reach [OF assms(1) p1 assms(2,3) p2 assms(4)] t by simp
      note tw = try_except_finally_world [where w="?w4" and env=env and filename="?fn"
          and strategy=strategy and chunks="map clean_chunk raw_chunks", unfolded t,
          simplified connected_fields]
      have "\<exists>rows m. embedded (trace w') = embedded (trace w) @ take m ?ss \<and>
            table w' = table w @ rows \<and> set (map row_chunk_text rows) \<subseteq> set ?ss"
      proof (cases "first_failure env ?fn strategy 0 ?ss")
        case None
        have e: "embedded (trace w') = embedded (trace w) @ take (length ?ss) ?ss"
          using tw None first_failure_None [OF None]
          by (auto simp: embedded_append connected_fields split: option.splits)
        show ?thesis
        proof (cases "conn_commit_result env")
          case c: None
          have "table w' = table w @ inserted_rows env ?fn strategy 0 ?ss"
            using tw None c by simp
          moreover have
            "set (map row_chunk_text (inserted_rows env ?fn strategy 0 ?ss)) \<subseteq> set ?ss"
            using first_failure_None [OF None] by simp
          ultimately show ?thesis using e by blast
        next
          case (Some e')
          then have "table w' = table w @ []" using tw None by simp
          then show ?thesis using e by (metis empty_subsetI list.simps(8) set_empty2)
        qed
      next
        case (Some ke)
        obtain k e where ke: "ke = (k, e)" by (cases ke)
        have f: "first_failure env ?fn strategy 0 ?ss = Some (k, e)" using Some ke by simp
        have "embedded (trace w') = embedded (trace w) @ take (Suc k) ?ss"
          using tw f first_failure_Some [OF f]
          by (auto simp: embedded_append connected_fields)
        moreover have "table w' = table w @ []" using tw f by simp
        ultimately show ?thesis by (metis empty_subsetI list.simps(8) set_empty2)
      qed
      then show ?thesis using pd by blast
    qed
  qed
  show ?thesis using 1 2 3 4 5 by blast
qed

theorem loop_chunks_not_blank_witness:
  "os_path_exists good_env ''notes.docx'' \<and>
   fst (extract_text good_env ''notes.docx'' empty_world)
     = Inr ''one\<newline>\<newline>two\<newline>three\<newline>'' \<and>
   chunk_text ''one\<newline>\<newline>two\<newline>three\<newline>'' ''paragraph''
     = Some (Inr [''one'', ''two'', ''three'']) \<and>
   psycopg2_connect good_env = None \<and>
   clean_chunk ''two'' \<noteq> [] \<and> strip (clean_chunk ''two'') \<noteq> [] \<and>
   enforce_max_length (clean_chunk ''two'') MAX_CHARS = Inr [clean_chunk ''two''] \<and>
   (\<exists>r w' rows m. process_document good_env ''notes.docx'' ''paragraph'' empty_world
        = Some (r, w') \<and>
      embedded (trace w') = take m [''one'', ''two'', ''three''] \<and> table w' = rows \<and>
      set (map row_chunk_text rows) \<subseteq> set [''one'', ''two'', ''three''])"
proof -
  have h1: "os_path_exists good_env ''notes.docx''" by code_simp
  have h2: "fst (extract_text good_env ''notes.docx'' empty_world)
     = Inr ''one\<newline>\<newline>two\<newline>three\<newline>''" by code_simp
  have h3: "chunk_text ''one\<newline>\<newline>two\<newline>three\<newline>'' ''paragraph''
     = Some (Inr [''one'', ''two'', ''three''])" by code_simp
  have h4: "psycopg2_connect good_env = None" by code_simp
  have ss: "all_safe_chunks (map clean_chunk [''one'', ''two'', ''three'']) = [''one'', ''two'', ''three'']"
    by code_simp
  have tb: "table empty_world = []" "embedded (trace empty_world) = []" by code_simp+
  note t = loop_chunks_not_blank [OF h1 h2 h3 h4, unfolded ss tb append_Nil]
  have "\<forall>c \<in> set (map clean_chunk [''one'', ''two'', ''three'']). c \<noteq> [] \<and> strip c \<noteq> []"
    using t by blast
  then have 1: "clean_chunk ''two'' \<noteq> [] \<and> strip (clean_chunk ''two'') \<noteq> []"
    by simp
  have len: "int (length (clean_chunk ''two'')) \<le> MAX_CHARS" by code_simp
  have "\<forall>c \<in> set [''one'', ''two'', ''three'']. int (length (clean_chunk c)) \<le> MAX_CHARS \<longrightarrow>
        enforce_max_length (clean_chunk c) MAX_CHARS = Inr [clean_chunk c]"
    using t by blast
  then have 2: "enforce_max_length (clean_chunk ''two'') MAX_CHARS = Inr [clean_chunk ''two'']"
    using len by simp
  have 3: "\<exists>r w' rows m. process_document good_env ''notes.docx'' ''paragraph'' empty_world
        = Some (r, w') \<and>
      embedded (trace w') = take m [''one'', ''two'', ''three''] \<and> table w' = rows \<and>
      set (map row_chunk_text rows) \<subseteq> set [''one'', ''two'', ''three'']"
    using t by blast
  show ?thesis using h1 h2 h3 h4 1 2 3 by blast
qed

text \<open>
  Claim C10.  For every input text, every chunk that \<open>split_text_fixed\<close> produces with
  the default configuration (size 500, overlap 50) has length at most 500, and
  \<open>enforce_max_length\<close> with the budget \<open>MAX_CHARS\<close> returns exactly one sub-chunk for the
  cleaned chunk; so on a fully successful run with the strategy \<^verbatim>\<open>fixed\<close> the number of
  rows written equals the number of chunks that the strategy produced.
\<close>

theorem fixed_strategy_one_record_per_chunk:
  "(\<exists>chunks. split_text_fixed text 500 50 = Some chunks \<and>
      (\<forall>c \<in> set chunks. length c \<le> 500 \<and>
         enforce_max_length (clean_chunk c) MAX_CHARS = Inr [clean_chunk c])) \<and>
   (process_document env file_path ''fixed'' w = Some (Inr v, w') \<longrightarrow>
      (\<exists>doc chunks rows. fst (extract_text env file_path w) = Inr doc \<and>
         split_text_fixed doc 500 50 = Some chunks \<and>
         table w' = table w @ rows \<and> length rows = length chunks \<and>
         map row_chunk_text rows = map clean_chunk chunks))"
proof
  obtain chunks where c: "split_text_fixed text 500 50 = Some chunks"
      "\<forall>c \<in> set chunks. length c \<le> 500 \<and> strip c \<noteq> []"
    using split_text_fixed_default [of "text"] by blast
  have "\<forall>c \<in> set chunks. enforce_max_length (clean_chunk c) MAX_CHARS = Inr [clean_chunk c]"
  proof
    fix c assume "c \<in> set chunks"
    then have "length c \<le> 500" "strip c \<noteq> []" using c(2) by auto
    then have "clean_chunk c \<noteq> []" "int (length (clean_chunk c)) \<le> MAX_CHARS"
      using length_clean_chunk [of c] by (simp_all add: clean_chunk_Nil_iff MAX_CHARS_def)
    then show "enforce_max_length (clean_chunk c) MAX_CHARS = Inr [clean_chunk c]"
      by (rule enforce_max_length_single)
  qed
  then show "\<exists>chunks. split_text_fixed text 500 50 = Some chunks \<and>
      (\<forall>c \<in> set chunks. length c \<le> 500 \<and>
         enforce_max_length (clean_chunk c) MAX_CHARS = Inr [clean_chunk c])"
    using c by blast
next
  show "process_document env file_path ''fixed'' w = Some (Inr v, w') \<longrightarrow>
      (\<exists>doc chunks rows. fst (extract_text env file_path w) = Inr doc \<and>
         split_text_fixed doc 500 50 = Some chunks \<and>
         table w' = table w @ rows \<and> length rows = length chunks \<and>
         map row_chunk_text rows = map clean_chunk chunks)"
  proof
    assume run: "process_document env file_path ''fixed'' w = Some (Inr v, w')"
    let ?fn = "path_name file_path"
    obtain doc raw_chunks where h: "os_path_exists env file_path" "psycopg2_connect env = None"
        "fst (extract_text env file_path w) = Inr doc"
        "chunk_text doc ''fixed'' = Some (Inr raw_chunks)"
      using process_document_success [OF run] by blast
    let ?ss = "all_safe_chunks (map clean_chunk raw_chunks)"
    have ok: "first_failure env ?fn ''fixed'' 0 ?ss = None" "conn_commit_result env = None"
        "print_result env (Stored (length ?ss)) = None"
        "print_result env (Processing ?fn) = None"
        "print_result env (Created (length raw_chunks) ''fixed'') = None"
      using process_document_success_calls [OF run h(3,4)] by auto
    have sp: "split_text_fixed doc 500 50 = Some raw_chunks"
      using h(4) by (auto simp: chunk_text_def)
    obtain chunks where c: "split_text_fixed doc 500 50 = Some chunks"
        "\<forall>c \<in> set chunks. length c \<le> 500 \<and> strip c \<noteq> []"
      using split_text_fixed_default [of doc] by blast
    have rc: "\<forall>c \<in> set raw_chunks. length c \<le> 500 \<and> strip c \<noteq> []" using sp c by simp
    have "\<forall>c \<in> set (map clean_chunk raw_chunks). c \<noteq> [] \<and> int (length c) \<le> MAX_CHARS"
    proof
      fix c assume "c \<in> set (map clean_chunk raw_chunks)"
      then obtain c0 where c0: "c0 \<in> set raw_chunks" "c = clean_chunk c0" by auto
      then have "length c0 \<le> 500" "strip c0 \<noteq> []" using rc by auto
      then show "c \<noteq> [] \<and> int (length c) \<le> MAX_CHARS"
        using length_clean_chunk [of c0] c0(2) by (simp add: clean_chunk_Nil_iff MAX_CHARS_def)
    qed
    then have ss: "?ss = map clean_chunk raw_chunks" by (rule all_safe_chunks_short)
    obtain w2 where w2: "process_document env file_path ''fixed'' w = Some (Inr PyNone, w2)"
        "table w2 = table w @ inserted_rows env ?fn ''fixed'' 0 ?ss"
      using process_document_committed [OF h(1) ok(4) h(3,4) ok(5) h(2) ok(1,2,3)] by blast
    have tab: "table w' = table w @ inserted_rows env ?fn ''fixed'' 0 ?ss"
      using w2 run by simp
    have rows: "map row_chunk_text (inserted_rows env ?fn ''fixed'' 0 ?ss) = ?ss"
      using first_failure_None [OF ok(1)] by auto
    then have len: "length (inserted_rows env ?fn ''fixed'' 0 ?ss) = length raw_chunks"
      using ss by (metis length_map)
    show "\<exists>doc chunks rows. fst (extract_text env file_path w) = Inr doc \<and>
         split_text_fixed doc 500 50 = Some chunks \<and>
         table w' = table w @ rows \<and> length rows = length chunks \<and>
         map row_chunk_text rows = map clean_chunk chunks"
      using h(3) sp tab rows len ss by metis
  qed
qed

theorem fixed_strategy_one_record_per_chunk_witness:
  "process_document good_env ''report.pdf'' ''fixed'' empty_world =
     Some (Inr PyNone,
       \<lparr>table = [\<lparr>row_chunk_text = ''Hello world. Bye!'', row_embedding = [17],
                  row_filename = ''report.pdf'', row_strategy_split = ''fixed''\<rparr>],
        pending = [], txn = Committed, closed = True,
        trace = [PathExists ''report.pdf'', ReadPdf ''report.pdf'', Connect,
                 Embed ''Hello world. Bye!'',
                 Insert \<lparr>row_chunk_text = ''Hello world. Bye!'', row_embedding = [17],
                         row_filename = ''report.pdf'', row_strategy_split = ''fixed''\<rparr>,
                 Commit, Close],
        stdout = [Processing ''report.pdf'', Created 1 ''fixed'', ProcessedChunk 1, Stored 1]\<rparr>) \<and>
   (\<exists>doc chunks rows. fst (extract_text good_env ''report.pdf'' empty_world) = Inr doc \<and>
         split_text_fixed doc 500 50 = Some chunks \<and>
         [\<lparr>row_chunk_text = ''Hello world. Bye!'', row_embedding = [17],
           row_filename = ''report.pdf'', row_strategy_split = ''fixed''\<rparr>] = rows \<and>
         length rows = length chunks \<and> map row_chunk_text rows = map clean_chunk chunks)"
proof -
  let ?W = "\<lparr>table = [\<lparr>row_chunk_text = ''Hello world. Bye!'', row_embedding = [17::int],
                  row_filename = ''report.pdf'', row_strategy_split = ''fixed''\<rparr>],
        pending = [], txn = Committed, closed = True,
        trace = [PathExists ''report.pdf'', ReadPdf ''report.pdf'', Connect,
                 Embed ''Hello world. Bye!'',
                 Insert \<lparr>row_chunk_text = ''Hello world. Bye!'', row_embedding = [17],
                         row_filename = ''report.pdf'', row_strategy_split = ''fixed''\<rparr>,
                 Commit, Close],
        stdout = [Processing ''report.pdf'', Created 1 ''fixed'', ProcessedChunk 1, Stored 1]\<rparr>"
  have run: "process_document good_env ''report.pdf'' ''fixed'' empty_world = Some (Inr PyNone, ?W)"
    by code_simp
  have tb: "table empty_world = []" by code_simp
  show ?thesis
    using fixed_strategy_one_record_per_chunk [of "[]" good_env "''report.pdf''" empty_world PyNone ?W] run
    unfolding tb by simp
qed

end
